theory Spec2Isabelle
  imports Main
begin

section \<open>The completion visitor of src/language/visitor.ts\<close>

text \<open>
  The visitor injects a marker token at the cursor, hands the text to the external
  parser (@babel/parser), walks the syntax tree (@babel/traverse) and records what it
  finds in a mutable state object. The model keeps the source's structure: every
  method of the class \<open>Visitor\<close> is a function that takes the object (\<open>this\<close>) and
  returns it updated. A leading underscore of a method name is dropped, since an
  Isabelle name starts with a letter.
\<close>

subsection \<open>Strings\<close>

text \<open>
  A JavaScript string is a sequence of UTF-16 code units; \<open>string\<close> stands for it, one
  \<open>char\<close> for one code unit. \<open>split_lines\<close> is \<open>s.split('\n')\<close>, \<open>join_lines\<close> is
  \<open>a.join('\n')\<close> and \<open>str_includes s sub\<close> is \<open>s.includes(sub)\<close>.
\<close>

definition PLACEHOLDER :: string where
  "PLACEHOLDER = ''TRIGGER_CHARACTER''"

definition newline :: char where
  "newline = CHR 0x0A"

fun split_lines :: "string \<Rightarrow> string list" where
  "split_lines [] = [[]]"
| "split_lines (c # cs) =
     (if c = newline then [] # split_lines cs
      else (case split_lines cs of
              l # ls \<Rightarrow> (c # l) # ls
            | [] \<Rightarrow> [[c]]))"

fun join_lines :: "string list \<Rightarrow> string" where
  "join_lines [] = []"
| "join_lines [l] = l"
| "join_lines (l # m # ls) = l @ newline # join_lines (m # ls)"

fun str_includes :: "string \<Rightarrow> string \<Rightarrow> bool" where
  "str_includes [] sub = (sub = [])"
| "str_includes (c # cs) sub = (take (length sub) (c # cs) = sub \<or> str_includes cs sub)"

subsection \<open>Positions, selections and the trigger-character injector\<close>

text \<open>
  An editor position is 0-based in both coordinates; a parser location has a 1-based
  line and a 0-based column. The field names \<open>line\<close> of a location, and \<open>start\<close> and
  \<open>end\<close> of a location and of a selection, carry a prefix to keep them apart.
\<close>

record Position =
  line :: nat
  character :: nat

record VisitorSelection =
  sel_start :: Position
  sel_end :: Position

datatype error = TypeError

text \<open>
  \<open>_handleTriggerCharacter\<close>. Reading \<open>textLines[position.line]\<close> beyond the last line
  gives \<open>undefined\<close>: with a character offset other than 0 the call of \<open>slice\<close> on it
  throws a TypeError; with offset 0 the template literal prints it as the text
  \<open>undefined\<close>, and the assignment beyond the end of the array leaves holes, which
  \<open>join\<close> writes as empty lines.
\<close>

definition handleTriggerCharacter :: "string \<Rightarrow> Position \<Rightarrow> error + string" where
  "handleTriggerCharacter textFromEditor position =
     (let textLines = split_lines textFromEditor in
      if character position = 0 then
        (if line position < length textLines then
           Inr (join_lines
                 (textLines[line position := [] @ PLACEHOLDER @ textLines ! line position]))
         else
           Inr (join_lines
                 (textLines @ replicate (line position - length textLines) []
                    @ [[] @ PLACEHOLDER @ ''undefined''])))
      else
        (if line position < length textLines then
           Inr (join_lines
                 (textLines[line position :=
                    take (character position) (textLines ! line position)
                      @ PLACEHOLDER
                      @ drop (character position) (textLines ! line position)]))
         else Inl TypeError))"

subsection \<open>The syntax tree\<close>

text \<open>
  The node kinds the visitor inspects, as @babel/types declares them, each with its
  optional location. Every other kind of node (File, Program, SpreadElement,
  ObjectMethod, NumericLiteral, ...) is an \<open>OtherNode\<close> with the name of its type and
  its child nodes in the order in which the traversal visits them. An array expression
  has \<open>null\<close> for an elided element. The fields \<open>value\<close> of a string literal and of an
  object property are \<open>svalue\<close> and \<open>ovalue\<close>.
\<close>

record LocPosition =
  loc_line :: nat
  column :: nat

record SourceLocation =
  loc_start :: LocPosition
  loc_end :: LocPosition

datatype node =
    Identifier (loc: "SourceLocation option") (name: string)
  | StringLiteral (loc: "SourceLocation option") (svalue: string)
  | TemplateElement (loc: "SourceLocation option") (raw: string)
  | TemplateLiteral (loc: "SourceLocation option") (quasis: "node list")
      (expressions: "node list")
  | CallExpression (loc: "SourceLocation option") (callee: node) (arguments: "node list")
  | MemberExpression (loc: "SourceLocation option") (object: node) (property: node)
      (computed: bool)
  | ExpressionStatement (loc: "SourceLocation option") (expression: node)
  | ObjectProperty (loc: "SourceLocation option") (key: node) (ovalue: node)
  | ObjectExpression (loc: "SourceLocation option") (properties: "node list")
  | ArrayExpression (loc: "SourceLocation option") (elements: "node option list")
  | OtherNode (node_type: string) (loc: "SourceLocation option") (subnodes: "node list")

text \<open>
  The child nodes of a node, in the order of the visitor keys of @babel/types
  (callee before arguments, object before property, key before value, quasis before
  expressions); \<open>null\<close> entries are skipped.
\<close>

fun children :: "node \<Rightarrow> node list" where
  "children (TemplateLiteral _ qs es) = qs @ es"
| "children (CallExpression _ c as) = c # as"
| "children (MemberExpression _ ob p _) = [ob, p]"
| "children (ExpressionStatement _ e) = [e]"
| "children (ObjectProperty _ k v) = [k, v]"
| "children (ObjectExpression _ ps) = ps"
| "children (ArrayExpression _ es) = List.map_filter id es"
| "children (OtherNode _ _ ns) = ns"
| "children _ = []"

lemma size_children [termination_simp]: "x \<in> set (children n) \<Longrightarrow> size x < size n"
proof (cases n)
  case (ArrayExpression l es)
  assume "x \<in> set (children n)"
  with ArrayExpression have "Some x \<in> set es"
    by (auto simp: List.map_filter_def)
  from size_list_estimation [OF this, of "size x" "size_option size"] ArrayExpression
  show ?thesis by simp
qed (auto simp: less_Suc_eq_le dest: size_list_estimation' [where f = size and y = "size x"])

text \<open>
  Modelled from the spec: @babel/traverse is an external library. \<open>traverse(parent,
  {enter})\<close> returns at once when \<open>parent\<close> is undefined; otherwise it walks the tree
  below \<open>parent\<close> depth first, calling \<open>enter\<close> on every node before its children. The
  node it is given is not entered itself. \<open>path.scope.traverse(node, {enter})\<close> is the
  same walk below \<open>node\<close>. The callbacks of the visitor neither change the tree nor
  skip or stop the walk, so the walk has no more to it.
\<close>

fun traverseNode :: "(node \<Rightarrow> 's \<Rightarrow> 's) \<Rightarrow> node \<Rightarrow> 's \<Rightarrow> 's" where
  "traverseNode enter n st = fold (\<lambda>c s. traverseNode enter c (enter c s)) (children n) st"

declare traverseNode.simps [simp del]

definition traverse :: "node option \<Rightarrow> (node \<Rightarrow> 's \<Rightarrow> 's) \<Rightarrow> 's \<Rightarrow> 's" where
  "traverse parent enter st =
     (case parent of None \<Rightarrow> st | Some n \<Rightarrow> traverseNode enter n st)"

text \<open>The nodes of a tree in the order in which a traversal enters them.\<close>

fun enter_order :: "node \<Rightarrow> node list" where
  "enter_order n = n # concat (map enter_order (children n))"

declare enter_order.simps [simp del]

definition entered :: "node \<Rightarrow> node list" where
  "entered parent = concat (map enter_order (children parent))"

subsection \<open>The state of a visitor\<close>

record CompletionState =
  databaseName :: "string option"
  collectionName :: "string option"
  streamProcessorName :: "string option"
  isObjectKey :: bool
  isIdentifierObjectValue :: bool
  isTextObjectValue :: bool
  isStage :: bool
  stageOperator :: "string option"
  isCollectionSymbol :: bool
  isStreamProcessorSymbol :: bool
  isUseCallExpression :: bool
  isGlobalSymbol :: bool
  isDbSymbol :: bool
  isSpSymbol :: bool
  isCollectionName :: bool
  isStreamProcessorName :: bool
  isAggregationCursor :: bool
  isFindCursor :: bool

record NamespaceState =
  ns_databaseName :: "string option"
  ns_collectionName :: "string option"

text \<open>
  The field \<open>_state\<close> has the type \<open>CompletionState | NamespaceState | {}\<close>. Every check
  tests \<open>'field' in this._state\<close> before it writes the field: \<open>has_key\<close> is that test,
  over the names of the fields of a CompletionState.
\<close>

datatype VisitorState =
    EmptyState
  | Namespace NamespaceState
  | Completion CompletionState

datatype state_key =
    K_databaseName | K_collectionName | K_streamProcessorName | K_isObjectKey
  | K_isIdentifierObjectValue | K_isTextObjectValue | K_isStage | K_stageOperator
  | K_isCollectionSymbol | K_isStreamProcessorSymbol | K_isUseCallExpression
  | K_isGlobalSymbol | K_isDbSymbol | K_isSpSymbol | K_isCollectionName
  | K_isStreamProcessorName | K_isAggregationCursor | K_isFindCursor

fun has_key :: "state_key \<Rightarrow> VisitorState \<Rightarrow> bool" where
  "has_key k EmptyState = False"
| "has_key k (Namespace _) = (k = K_databaseName \<or> k = K_collectionName)"
| "has_key k (Completion _) = True"

text \<open>
  The assignments \<open>this._state.field = v\<close>. Each stands under its \<open>has_key\<close> test in
  the source, so the state has the field that is written; on a state without the field
  the model leaves the state as it is.
\<close>

fun set_flag ::
  "((bool \<Rightarrow> bool) \<Rightarrow> CompletionState \<Rightarrow> CompletionState) \<Rightarrow> VisitorState \<Rightarrow> VisitorState"
where
  "set_flag upd (Completion c) = Completion (upd (\<lambda>_. True) c)"
| "set_flag upd s = s"

fun set_databaseName :: "string \<Rightarrow> VisitorState \<Rightarrow> VisitorState" where
  "set_databaseName v (Completion c) = Completion (c\<lparr>databaseName := Some v\<rparr>)"
| "set_databaseName v (Namespace n) = Namespace (n\<lparr>ns_databaseName := Some v\<rparr>)"
| "set_databaseName v EmptyState = EmptyState"

fun set_collectionName :: "string \<Rightarrow> VisitorState \<Rightarrow> VisitorState" where
  "set_collectionName v (Completion c) = Completion (c\<lparr>collectionName := Some v\<rparr>)"
| "set_collectionName v (Namespace n) = Namespace (n\<lparr>ns_collectionName := Some v\<rparr>)"
| "set_collectionName v EmptyState = EmptyState"

fun set_streamProcessorName :: "string \<Rightarrow> VisitorState \<Rightarrow> VisitorState" where
  "set_streamProcessorName v (Completion c) = Completion (c\<lparr>streamProcessorName := Some v\<rparr>)"
| "set_streamProcessorName v s = s"

fun set_stageOperator :: "string \<Rightarrow> VisitorState \<Rightarrow> VisitorState" where
  "set_stageOperator v (Completion c) = Completion (c\<lparr>stageOperator := Some v\<rparr>)"
| "set_stageOperator v s = s"

record Visitor =
  v_state :: VisitorState
  v_selection :: VisitorSelection

definition new_Visitor :: Visitor where
  "new_Visitor =
     \<lparr>v_state = EmptyState,
      v_selection = \<lparr>sel_start = \<lparr>line = 0, character = 0\<rparr>,
                     sel_end = \<lparr>line = 0, character = 0\<rparr>\<rparr>\<rparr>"

definition getDefaultsForCompletion :: CompletionState where
  "getDefaultsForCompletion =
     \<lparr>databaseName = None,
      collectionName = None,
      streamProcessorName = None,
      isObjectKey = False,
      isIdentifierObjectValue = False,
      isTextObjectValue = False,
      isStage = False,
      stageOperator = None,
      isCollectionSymbol = False,
      isStreamProcessorSymbol = False,
      isUseCallExpression = False,
      isGlobalSymbol = False,
      isDbSymbol = False,
      isSpSymbol = False,
      isCollectionName = False,
      isStreamProcessorName = False,
      isAggregationCursor = False,
      isFindCursor = False\<rparr>"

subsection \<open>The checks on call expressions\<close>

definition checkIsUseCallAsSimpleString :: "node \<Rightarrow> Visitor \<Rightarrow> Visitor" where
  "checkIsUseCallAsSimpleString node this =
     (if is_Identifier (callee node) \<and>
         name (callee node) = ''use'' \<and>
         length (arguments node) = 1 \<and>
         is_StringLiteral (arguments node ! 0) \<and>
         str_includes (svalue (arguments node ! 0)) PLACEHOLDER \<and>
         has_key K_isUseCallExpression (v_state this)
      then this\<lparr>v_state := set_flag isUseCallExpression_update (v_state this)\<rparr>
      else this)"

text \<open>
  \<open>quasis[0].value?.raw\<close> must be truthy here, that is, not the empty string. The
  elements of \<open>quasis\<close> are TemplateElement nodes, the only ones with a field \<open>raw\<close>.
\<close>

definition checkIsUseCallAsTemplate :: "node \<Rightarrow> Visitor \<Rightarrow> Visitor" where
  "checkIsUseCallAsTemplate node this =
     (if is_Identifier (callee node) \<and>
         name (callee node) = ''use'' \<and>
         length (arguments node) = 1 \<and>
         is_TemplateLiteral (arguments node ! 0) \<and>
         length (quasis (arguments node ! 0)) = 1 \<and>
         is_TemplateElement (quasis (arguments node ! 0) ! 0) \<and>
         raw (quasis (arguments node ! 0) ! 0) \<noteq> [] \<and>
         str_includes (raw (quasis (arguments node ! 0) ! 0)) PLACEHOLDER \<and>
         has_key K_isUseCallExpression (v_state this)
      then this\<lparr>v_state := set_flag isUseCallExpression_update (v_state this)\<rparr>
      else this)"

definition checkIsUseCall :: "node \<Rightarrow> Visitor \<Rightarrow> Visitor" where
  "checkIsUseCall node this =
     checkIsUseCallAsTemplate node (checkIsUseCallAsSimpleString node this)"

definition checkGetCollectionAsSimpleString :: "node \<Rightarrow> Visitor \<Rightarrow> Visitor" where
  "checkGetCollectionAsSimpleString node this =
     (if is_StringLiteral (arguments node ! 0) \<and>
         str_includes (svalue (arguments node ! 0)) PLACEHOLDER \<and>
         has_key K_isCollectionName (v_state this)
      then this\<lparr>v_state := set_flag isCollectionName_update (v_state this)\<rparr>
      else this)"

definition checkGetCollectionAsTemplate :: "node \<Rightarrow> Visitor \<Rightarrow> Visitor" where
  "checkGetCollectionAsTemplate node this =
     (if is_TemplateLiteral (arguments node ! 0) \<and>
         length (quasis (arguments node ! 0)) = 1 \<and>
         is_TemplateElement (quasis (arguments node ! 0) ! 0) \<and>
         str_includes (raw (quasis (arguments node ! 0) ! 0)) PLACEHOLDER \<and>
         has_key K_isCollectionName (v_state this)
      then this\<lparr>v_state := set_flag isCollectionName_update (v_state this)\<rparr>
      else this)"

definition checkIsCollectionNameAsCallExpression :: "node \<Rightarrow> Visitor \<Rightarrow> Visitor" where
  "checkIsCollectionNameAsCallExpression node this =
     (if is_MemberExpression (callee node) \<and>
         is_Identifier (object (callee node)) \<and>
         name (object (callee node)) = ''db'' \<and>
         is_Identifier (property (callee node)) \<and>
         name (property (callee node)) = ''getCollection'' \<and>
         length (arguments node) = 1
      then checkGetCollectionAsTemplate node (checkGetCollectionAsSimpleString node this)
      else this)"

definition checkGetStreamProcessorAsSimpleString :: "node \<Rightarrow> Visitor \<Rightarrow> Visitor" where
  "checkGetStreamProcessorAsSimpleString node this =
     (if is_StringLiteral (arguments node ! 0) \<and>
         str_includes (svalue (arguments node ! 0)) PLACEHOLDER \<and>
         has_key K_isStreamProcessorName (v_state this)
      then this\<lparr>v_state := set_flag isStreamProcessorName_update (v_state this)\<rparr>
      else this)"

definition checkGetStreamProcessorAsTemplate :: "node \<Rightarrow> Visitor \<Rightarrow> Visitor" where
  "checkGetStreamProcessorAsTemplate node this =
     (if is_TemplateLiteral (arguments node ! 0) \<and>
         length (quasis (arguments node ! 0)) = 1 \<and>
         is_TemplateElement (quasis (arguments node ! 0) ! 0) \<and>
         str_includes (raw (quasis (arguments node ! 0) ! 0)) PLACEHOLDER \<and>
         has_key K_isStreamProcessorName (v_state this)
      then this\<lparr>v_state := set_flag isStreamProcessorName_update (v_state this)\<rparr>
      else this)"

definition checkIsStreamProcessorNameAsCallExpression :: "node \<Rightarrow> Visitor \<Rightarrow> Visitor" where
  "checkIsStreamProcessorNameAsCallExpression node this =
     (if is_MemberExpression (callee node) \<and>
         is_Identifier (object (callee node)) \<and>
         name (object (callee node)) = ''sp'' \<and>
         is_Identifier (property (callee node)) \<and>
         name (property (callee node)) = ''getProcessor'' \<and>
         length (arguments node) = 1
      then checkGetStreamProcessorAsTemplate node
             (checkGetStreamProcessorAsSimpleString node this)
      else this)"

text \<open>
  \<open>_checkHasDatabaseName\<close> compares the end of the call with the start of the selection.
  The subtraction \<open>node.loc.end.line - 1\<close> is the one of JavaScript numbers, so it is
  taken over the integers.
\<close>

definition checkHasDatabaseName :: "node \<Rightarrow> Visitor \<Rightarrow> Visitor" where
  "checkHasDatabaseName node this =
     (if is_Identifier (callee node) \<and>
         name (callee node) = ''use'' \<and>
         length (arguments node) = 1 \<and>
         is_StringLiteral (arguments node ! 0) \<and>
         loc node \<noteq> None \<and>
         (int (line (sel_start (v_selection this)))
            > int (loc_line (loc_end (the (loc node)))) - 1 \<or>
          (int (line (sel_start (v_selection this)))
             = int (loc_line (loc_end (the (loc node)))) - 1 \<and>
           character (sel_start (v_selection this))
             \<ge> column (loc_end (the (loc node))))) \<and>
         has_key K_databaseName (v_state this)
      then this\<lparr>v_state := set_databaseName (svalue (arguments node ! 0)) (v_state this)\<rparr>
      else this)"

definition visitCallExpression :: "node \<Rightarrow> Visitor \<Rightarrow> Visitor" where
  "visitCallExpression node this =
     (if \<not> is_CallExpression node then this
      else checkHasDatabaseName node
             (checkIsStreamProcessorNameAsCallExpression node
               (checkIsCollectionNameAsCallExpression node
                 (checkIsUseCall node this))))"

subsection \<open>The checks on member expressions\<close>

definition checkHasAggregationCall :: "node \<Rightarrow> Visitor \<Rightarrow> Visitor" where
  "checkHasAggregationCall node this =
     (if is_CallExpression (object node) \<and>
         is_Identifier (property node) \<and>
         str_includes (name (property node)) PLACEHOLDER \<and>
         is_MemberExpression (callee (object node)) \<and>
         \<not> computed (callee (object node)) \<and>
         is_Identifier (property (callee (object node))) \<and>
         name (property (callee (object node))) = ''aggregate'' \<and>
         has_key K_isAggregationCursor (v_state this)
      then this\<lparr>v_state := set_flag isAggregationCursor_update (v_state this)\<rparr>
      else this)"

definition checkHasFindCall :: "node \<Rightarrow> Visitor \<Rightarrow> Visitor" where
  "checkHasFindCall node this =
     (if is_CallExpression (object node) \<and>
         is_Identifier (property node) \<and>
         str_includes (name (property node)) PLACEHOLDER \<and>
         is_MemberExpression (callee (object node)) \<and>
         \<not> computed (callee (object node)) \<and>
         is_Identifier (property (callee (object node))) \<and>
         name (property (callee (object node))) = ''find'' \<and>
         has_key K_isFindCursor (v_state this)
      then this\<lparr>v_state := set_flag isFindCursor_update (v_state this)\<rparr>
      else this)"

definition checkIsCollectionMemberExpression :: "node \<Rightarrow> Visitor \<Rightarrow> Visitor" where
  "checkIsCollectionMemberExpression node this =
     (if is_MemberExpression (object node) \<and>
         is_Identifier (object (object node)) \<and>
         name (object (object node)) = ''db'' \<and>
         is_Identifier (property node) \<and>
         str_includes (name (property node)) PLACEHOLDER \<and>
         has_key K_isCollectionSymbol (v_state this)
      then this\<lparr>v_state := set_flag isCollectionSymbol_update (v_state this)\<rparr>
      else this)"

definition checkIsCollectionCallExpression :: "node \<Rightarrow> Visitor \<Rightarrow> Visitor" where
  "checkIsCollectionCallExpression node this =
     (if is_CallExpression (object node) \<and>
         is_MemberExpression (callee (object node)) \<and>
         is_Identifier (object (callee (object node))) \<and>
         name (object (callee (object node))) = ''db'' \<and>
         is_Identifier (property (callee (object node))) \<and>
         name (property (callee (object node))) = ''getCollection'' \<and>
         is_Identifier (property node) \<and>
         str_includes (name (property node)) PLACEHOLDER \<and>
         has_key K_isCollectionSymbol (v_state this)
      then this\<lparr>v_state := set_flag isCollectionSymbol_update (v_state this)\<rparr>
      else this)"

definition checkIsCollectionSymbol :: "node \<Rightarrow> Visitor \<Rightarrow> Visitor" where
  "checkIsCollectionSymbol node this =
     checkIsCollectionCallExpression node (checkIsCollectionMemberExpression node this)"

definition checkIsCollectionNameAsMemberExpression :: "node \<Rightarrow> Visitor \<Rightarrow> Visitor" where
  "checkIsCollectionNameAsMemberExpression node this =
     (if is_Identifier (object node) \<and>
         name (object node) = ''db'' \<and>
         ((is_Identifier (property node) \<and>
           str_includes (name (property node)) PLACEHOLDER) \<or>
          (is_StringLiteral (property node) \<and>
           str_includes (svalue (property node)) PLACEHOLDER)) \<and>
         has_key K_isCollectionName (v_state this)
      then this\<lparr>v_state := set_flag isCollectionName_update (v_state this)\<rparr>
      else this)"

definition checkHasCollectionNameMemberExpression :: "node \<Rightarrow> Visitor \<Rightarrow> Visitor" where
  "checkHasCollectionNameMemberExpression node this =
     (if is_MemberExpression (object node) \<and>
         is_Identifier (object (object node)) \<and>
         name (object (object node)) = ''db''
      then
        (if is_Identifier (property (object node)) \<and>
            has_key K_collectionName (v_state this)
         then this\<lparr>v_state :=
                set_collectionName (name (property (object node))) (v_state this)\<rparr>
         else if is_StringLiteral (property (object node)) \<and>
            has_key K_collectionName (v_state this)
         then this\<lparr>v_state :=
                set_collectionName (svalue (property (object node))) (v_state this)\<rparr>
         else this)
      else this)"

definition checkHasCollectionNameCallExpression :: "node \<Rightarrow> Visitor \<Rightarrow> Visitor" where
  "checkHasCollectionNameCallExpression node this =
     (if is_CallExpression (object node) \<and>
         is_MemberExpression (callee (object node)) \<and>
         is_Identifier (object (callee (object node))) \<and>
         name (object (callee (object node))) = ''db'' \<and>
         is_Identifier (property (callee (object node))) \<and>
         name (property (callee (object node))) = ''getCollection'' \<and>
         length (arguments (object node)) = 1 \<and>
         is_StringLiteral (arguments (object node) ! 0) \<and>
         has_key K_collectionName (v_state this)
      then this\<lparr>v_state :=
             set_collectionName (svalue (arguments (object node) ! 0)) (v_state this)\<rparr>
      else this)"

definition checkHasCollectionName :: "node \<Rightarrow> Visitor \<Rightarrow> Visitor" where
  "checkHasCollectionName node this =
     checkHasCollectionNameCallExpression node
       (checkHasCollectionNameMemberExpression node this)"

definition checkIsStreamProcessorMemberExpression :: "node \<Rightarrow> Visitor \<Rightarrow> Visitor" where
  "checkIsStreamProcessorMemberExpression node this =
     (if is_MemberExpression (object node) \<and>
         is_Identifier (object (object node)) \<and>
         name (object (object node)) = ''sp'' \<and>
         is_Identifier (property node) \<and>
         str_includes (name (property node)) PLACEHOLDER \<and>
         has_key K_isStreamProcessorSymbol (v_state this)
      then this\<lparr>v_state := set_flag isStreamProcessorSymbol_update (v_state this)\<rparr>
      else this)"

definition checkIsStreamProcessorCallExpression :: "node \<Rightarrow> Visitor \<Rightarrow> Visitor" where
  "checkIsStreamProcessorCallExpression node this =
     (if is_CallExpression (object node) \<and>
         is_MemberExpression (callee (object node)) \<and>
         is_Identifier (object (callee (object node))) \<and>
         name (object (callee (object node))) = ''sp'' \<and>
         is_Identifier (property (callee (object node))) \<and>
         name (property (callee (object node))) = ''getProcessor'' \<and>
         is_Identifier (property node) \<and>
         str_includes (name (property node)) PLACEHOLDER \<and>
         has_key K_isStreamProcessorSymbol (v_state this)
      then this\<lparr>v_state := set_flag isStreamProcessorSymbol_update (v_state this)\<rparr>
      else this)"

definition checkIsStreamProcessorSymbol :: "node \<Rightarrow> Visitor \<Rightarrow> Visitor" where
  "checkIsStreamProcessorSymbol node this =
     checkIsStreamProcessorCallExpression node
       (checkIsStreamProcessorMemberExpression node this)"

text \<open>
  \<open>_checkIsStreamProcessorNameAsMemberExpression\<close> tests for the key
  \<open>isStreamProcessorName\<close> and writes two fields, \<open>isSpSymbol\<close> first.
\<close>

definition checkIsStreamProcessorNameAsMemberExpression :: "node \<Rightarrow> Visitor \<Rightarrow> Visitor" where
  "checkIsStreamProcessorNameAsMemberExpression node this =
     (if is_Identifier (object node) \<and>
         name (object node) = ''sp'' \<and>
         ((is_Identifier (property node) \<and>
           str_includes (name (property node)) PLACEHOLDER) \<or>
          (is_StringLiteral (property node) \<and>
           str_includes (svalue (property node)) PLACEHOLDER)) \<and>
         has_key K_isStreamProcessorName (v_state this)
      then this\<lparr>v_state :=
             set_flag isStreamProcessorName_update
               (set_flag isSpSymbol_update (v_state this))\<rparr>
      else this)"

definition checkHasStreamProcessorNameMemberExpression :: "node \<Rightarrow> Visitor \<Rightarrow> Visitor" where
  "checkHasStreamProcessorNameMemberExpression node this =
     (if is_MemberExpression (object node) \<and>
         is_Identifier (object (object node)) \<and>
         name (object (object node)) = ''sp''
      then
        (if is_Identifier (property (object node)) \<and>
            has_key K_streamProcessorName (v_state this)
         then this\<lparr>v_state :=
                set_streamProcessorName (name (property (object node))) (v_state this)\<rparr>
         else if is_StringLiteral (property (object node)) \<and>
            has_key K_streamProcessorName (v_state this)
         then this\<lparr>v_state :=
                set_streamProcessorName (svalue (property (object node))) (v_state this)\<rparr>
         else this)
      else this)"

definition checkHasStreamProcessorNameCallExpression :: "node \<Rightarrow> Visitor \<Rightarrow> Visitor" where
  "checkHasStreamProcessorNameCallExpression node this =
     (if is_CallExpression (object node) \<and>
         is_MemberExpression (callee (object node)) \<and>
         is_Identifier (object (callee (object node))) \<and>
         name (object (callee (object node))) = ''sp'' \<and>
         is_Identifier (property (callee (object node))) \<and>
         name (property (callee (object node))) = ''getProcessor'' \<and>
         length (arguments (object node)) = 1 \<and>
         is_StringLiteral (arguments (object node) ! 0) \<and>
         has_key K_streamProcessorName (v_state this)
      then this\<lparr>v_state :=
             set_streamProcessorName (svalue (arguments (object node) ! 0)) (v_state this)\<rparr>
      else this)"

definition checkHasStreamProcessorName :: "node \<Rightarrow> Visitor \<Rightarrow> Visitor" where
  "checkHasStreamProcessorName node this =
     checkHasStreamProcessorNameCallExpression node
       (checkHasStreamProcessorNameMemberExpression node this)"

definition visitMemberExpression :: "node \<Rightarrow> Visitor \<Rightarrow> Visitor" where
  "visitMemberExpression node this =
     (if \<not> is_MemberExpression node then this
      else checkHasStreamProcessorName node
             (checkIsStreamProcessorNameAsMemberExpression node
               (checkIsStreamProcessorSymbol node
                 (checkHasCollectionName node
                   (checkIsCollectionNameAsMemberExpression node
                     (checkIsCollectionSymbol node
                       (checkHasFindCall node
                         (checkHasAggregationCall node this))))))))"

subsection \<open>The checks on expression statements\<close>

definition checkIsGlobalSymbol :: "node \<Rightarrow> Visitor \<Rightarrow> Visitor" where
  "checkIsGlobalSymbol node this =
     (if is_Identifier (expression node) \<and>
         str_includes (name (expression node)) ''TRIGGER_CHARACTER'' \<and>
         has_key K_isGlobalSymbol (v_state this)
      then this\<lparr>v_state := set_flag isGlobalSymbol_update (v_state this)\<rparr>
      else this)"

definition checkIsDbSymbol :: "node \<Rightarrow> Visitor \<Rightarrow> Visitor" where
  "checkIsDbSymbol node this =
     (if is_MemberExpression (expression node) \<and>
         is_Identifier (object (expression node)) \<and>
         name (object (expression node)) = ''db'' \<and>
         has_key K_isDbSymbol (v_state this)
      then this\<lparr>v_state := set_flag isDbSymbol_update (v_state this)\<rparr>
      else this)"

definition checkIsSpSymbol :: "node \<Rightarrow> Visitor \<Rightarrow> Visitor" where
  "checkIsSpSymbol node this =
     (if is_MemberExpression (expression node) \<and>
         is_Identifier (object (expression node)) \<and>
         name (object (expression node)) = ''sp'' \<and>
         has_key K_isSpSymbol (v_state this)
      then this\<lparr>v_state := set_flag isSpSymbol_update (v_state this)\<rparr>
      else this)"

definition visitExpressionStatement :: "node \<Rightarrow> Visitor \<Rightarrow> Visitor" where
  "visitExpressionStatement node this =
     (if is_ExpressionStatement node
      then checkIsSpSymbol node (checkIsDbSymbol node (checkIsGlobalSymbol node this))
      else this)"

subsection \<open>The checks on object expressions\<close>

text \<open>
  The callback given to \<open>node.properties.find\<close> returns nothing, so \<open>find\<close> never stops
  early: it runs the callback on every property, in order.
\<close>

definition checkIsObjectKey :: "node \<Rightarrow> Visitor \<Rightarrow> Visitor" where
  "checkIsObjectKey node this =
     fold (\<lambda>item this.
            if is_ObjectProperty item \<and>
               is_Identifier (key item) \<and>
               str_includes (name (key item)) PLACEHOLDER \<and>
               has_key K_isObjectKey (v_state this)
            then this\<lparr>v_state := set_flag isObjectKey_update (v_state this)\<rparr>
            else this)
       (properties node) this"

definition checkIsIdentifierObjectValue :: "node \<Rightarrow> Visitor \<Rightarrow> Visitor" where
  "checkIsIdentifierObjectValue node this =
     fold (\<lambda>item this.
            if is_ObjectProperty item \<and>
               is_Identifier (ovalue item) \<and>
               str_includes (name (ovalue item)) PLACEHOLDER \<and>
               has_key K_isIdentifierObjectValue (v_state this)
            then this\<lparr>v_state := set_flag isIdentifierObjectValue_update (v_state this)\<rparr>
            else this)
       (properties node) this"

definition checkIsTextObjectValue :: "node \<Rightarrow> Visitor \<Rightarrow> Visitor" where
  "checkIsTextObjectValue node this =
     fold (\<lambda>item this.
            if ((is_ObjectProperty item \<and>
                 is_StringLiteral (ovalue item) \<and>
                 str_includes (svalue (ovalue item)) PLACEHOLDER) \<or>
                (is_ObjectProperty item \<and>
                 is_TemplateLiteral (ovalue item) \<and>
                 length (quasis (ovalue item)) = 1 \<and>
                 is_TemplateElement (quasis (ovalue item) ! 0) \<and>
                 str_includes (raw (quasis (ovalue item) ! 0)) PLACEHOLDER)) \<and>
               has_key K_isTextObjectValue (v_state this)
            then this\<lparr>v_state := set_flag isTextObjectValue_update (v_state this)\<rparr>
            else this)
       (properties node) this"

definition visitObjectExpression :: "node \<Rightarrow> Visitor \<Rightarrow> Visitor" where
  "visitObjectExpression node this =
     (if is_ObjectExpression node
      then checkIsTextObjectValue node
             (checkIsIdentifierObjectValue node (checkIsObjectKey node this))
      else this)"

subsection \<open>The checks on array expressions\<close>

definition checkIsStage :: "node \<Rightarrow> Visitor \<Rightarrow> Visitor" where
  "checkIsStage node this =
     fold (\<lambda>item this.
            if item \<noteq> None \<and> is_ObjectExpression (the item) then
              fold (\<lambda>item this.
                     if is_ObjectProperty item \<and>
                        is_Identifier (key item) \<and>
                        str_includes (name (key item)) PLACEHOLDER \<and>
                        has_key K_isStage (v_state this)
                     then this\<lparr>v_state := set_flag isStage_update (v_state this)\<rparr>
                     else this)
                (properties (the item)) this
            else this)
       (elements node) this"

text \<open>
  The \<open>enter\<close> callback of the traversal that \<open>_checkIsStageOperator\<close> starts below a
  property of a pipeline stage; \<open>opname\<close> is the name of that property's key.
\<close>

definition stageOperatorEnter :: "string \<Rightarrow> node \<Rightarrow> Visitor \<Rightarrow> Visitor" where
  "stageOperatorEnter opname node this =
     (if is_ObjectProperty node \<and>
         is_Identifier (key node) \<and>
         str_includes (name (key node)) PLACEHOLDER \<and>
         has_key K_stageOperator (v_state this)
      then this\<lparr>v_state := set_stageOperator opname (v_state this)\<rparr>
      else this)"

definition checkIsStageOperator :: "node \<Rightarrow> Visitor \<Rightarrow> Visitor" where
  "checkIsStageOperator node this =
     (if is_ArrayExpression node then
        fold (\<lambda>item this.
               if item \<noteq> None \<and> is_ObjectExpression (the item) then
                 fold (\<lambda>item this.
                        if is_ObjectProperty item \<and>
                           is_Identifier (key item) \<and>
                           is_ObjectExpression (ovalue item)
                        then traverse (Some item) (stageOperatorEnter (name (key item))) this
                        else this)
                   (properties (the item)) this
               else this)
          (elements node) this
      else this)"

definition visitArrayExpression :: "node \<Rightarrow> Visitor \<Rightarrow> Visitor" where
  "visitArrayExpression node this =
     (if is_ArrayExpression node
      then checkIsStageOperator node (checkIsStage node this)
      else this)"

subsection \<open>Selection geometry\<close>

text \<open>
  \<open>_isWithinSelection\<close>. A number stands in a chain of \<open>&&\<close> as a condition there, so
  it counts as true when it is not 0.
\<close>

definition isWithinSelection :: "node \<Rightarrow> Visitor \<Rightarrow> bool" where
  "isWithinSelection node this =
     (if loc node \<noteq> None \<and>
         loc_line (loc_start (the (loc node))) \<noteq> 0 \<and>
         int (loc_line (loc_start (the (loc node)))) - 1
           = int (line (sel_start (v_selection this))) \<and>
         column (loc_start (the (loc node))) \<noteq> 0 \<and>
         column (loc_start (the (loc node))) \<ge> character (sel_start (v_selection this)) \<and>
         loc_line (loc_end (the (loc node))) \<noteq> 0 \<and>
         int (loc_line (loc_end (the (loc node)))) - 1
           = int (line (sel_end (v_selection this))) \<and>
         column (loc_end (the (loc node))) \<noteq> 0 \<and>
         column (loc_end (the (loc node))) \<le> character (sel_end (v_selection this))
      then True
      else False)"

subsection \<open>Parsing and traversal\<close>

text \<open>
  The parser is an external collaborator (@babel/parser) and a parameter of the model:
  \<open>parse text\<close> is \<open>None\<close> when \<open>parser.parse\<close> throws, which \<open>parseAST\<close> catches, and
  the root of the tree otherwise.
\<close>

type_synonym parser = "string \<Rightarrow> node option"

definition visitor_enter :: "node \<Rightarrow> Visitor \<Rightarrow> Visitor" where
  "visitor_enter node this =
     visitArrayExpression node
       (visitObjectExpression node
         (visitExpressionStatement node
           (visitMemberExpression node
             (visitCallExpression node this))))"

definition parseAST :: "parser \<Rightarrow> string \<Rightarrow> VisitorSelection \<Rightarrow> Visitor \<Rightarrow> Visitor" where
  "parseAST parse textFromEditor selection this =
     (let this = this\<lparr>v_selection := selection\<rparr>;
          ast = parse textFromEditor
      in traverse ast visitor_enter this)"

text \<open>
  \<open>parseASTForCompletion\<close> returns \<open>this._state\<close>, or throws what the injector throws;
  the second component is the visitor object after the call.
\<close>

definition parseASTForCompletion ::
  "parser \<Rightarrow> string \<Rightarrow> Position \<Rightarrow> Visitor \<Rightarrow> (error + VisitorState) \<times> Visitor"
where
  "parseASTForCompletion parse textFromEditor position this =
     (let selection = \<lparr>sel_start = position, sel_end = \<lparr>line = 0, character = 0\<rparr>\<rparr>;
          this = this\<lparr>v_state := Completion getDefaultsForCompletion\<rparr>
      in case handleTriggerCharacter textFromEditor position of
           Inl e \<Rightarrow> (Inl e, this)
         | Inr textFromEditor' \<Rightarrow>
             (let this = parseAST parse textFromEditor' selection this
              in (Inr (v_state this), this)))"

section \<open>Notions used by the properties\<close>

subsection \<open>How a state may grow\<close>

text \<open>
  \<open>state_le c c'\<close>: every flag that is set in \<open>c\<close> is set in \<open>c'\<close>, and every name that
  is a string in \<open>c\<close> is a string in \<open>c'\<close> (possibly another one).
\<close>

definition state_le :: "CompletionState \<Rightarrow> CompletionState \<Rightarrow> bool" where
  "state_le c c' \<longleftrightarrow>
     (databaseName c \<noteq> None \<longrightarrow> databaseName c' \<noteq> None) \<and>
     (collectionName c \<noteq> None \<longrightarrow> collectionName c' \<noteq> None) \<and>
     (streamProcessorName c \<noteq> None \<longrightarrow> streamProcessorName c' \<noteq> None) \<and>
     (stageOperator c \<noteq> None \<longrightarrow> stageOperator c' \<noteq> None) \<and>
     (isObjectKey c \<longrightarrow> isObjectKey c') \<and>
     (isIdentifierObjectValue c \<longrightarrow> isIdentifierObjectValue c') \<and>
     (isTextObjectValue c \<longrightarrow> isTextObjectValue c') \<and>
     (isStage c \<longrightarrow> isStage c') \<and>
     (isCollectionSymbol c \<longrightarrow> isCollectionSymbol c') \<and>
     (isStreamProcessorSymbol c \<longrightarrow> isStreamProcessorSymbol c') \<and>
     (isUseCallExpression c \<longrightarrow> isUseCallExpression c') \<and>
     (isGlobalSymbol c \<longrightarrow> isGlobalSymbol c') \<and>
     (isDbSymbol c \<longrightarrow> isDbSymbol c') \<and>
     (isSpSymbol c \<longrightarrow> isSpSymbol c') \<and>
     (isCollectionName c \<longrightarrow> isCollectionName c') \<and>
     (isStreamProcessorName c \<longrightarrow> isStreamProcessorName c') \<and>
     (isAggregationCursor c \<longrightarrow> isAggregationCursor c') \<and>
     (isFindCursor c \<longrightarrow> isFindCursor c')"

text \<open>
  \<open>lifts R this this'\<close>: a step from \<open>this\<close> to \<open>this'\<close> keeps the selection, and takes a
  CompletionState to a CompletionState related to it by \<open>R\<close>.
\<close>

definition lifts ::
  "(CompletionState \<Rightarrow> CompletionState \<Rightarrow> bool) \<Rightarrow> Visitor \<Rightarrow> Visitor \<Rightarrow> bool"
where
  "lifts R this this' \<longleftrightarrow>
     v_selection this' = v_selection this \<and>
     (\<forall>c. v_state this = Completion c \<longrightarrow> (\<exists>c'. v_state this' = Completion c' \<and> R c c'))"

text \<open>\<open>keeps_db c c'\<close>: the state grows and the database name stays as it is.\<close>

definition keeps_db :: "CompletionState \<Rightarrow> CompletionState \<Rightarrow> bool" where
  "keeps_db c c' \<longleftrightarrow> state_le c c' \<and> databaseName c' = databaseName c"

subsection \<open>Calls of use before the cursor\<close>

text \<open>
  The calls that the specification lets decide the database name, in its words: a call
  \<open>use("lit")\<close> with a single string literal as argument that ends on a line before the
  cursor's, or on the cursor's line at or before the cursor's character. The parser
  counts lines from 1, the editor from 0. This is compared with \<open>checkHasDatabaseName\<close>,
  which is written from the source.
\<close>

definition spec_use_call_before :: "Position \<Rightarrow> node \<Rightarrow> bool" where
  "spec_use_call_before position n \<longleftrightarrow>
     is_CallExpression n \<and> is_Identifier (callee n) \<and> name (callee n) = ''use'' \<and>
     length (arguments n) = 1 \<and> is_StringLiteral (arguments n ! 0) \<and>
     (case loc n of
        None \<Rightarrow> False
      | Some l \<Rightarrow>
          loc_line (loc_end l) < line position + 1 \<or>
          (loc_line (loc_end l) = line position + 1 \<and>
           column (loc_end l) \<le> character position))"

subsection \<open>Syntax trees of the example inputs\<close>

text \<open>
  The trees that @babel/parser returns for the marker-injected texts of the examples:
  a File node over a Program node over the statements. Each example has a parser that
  knows its one text.
\<close>

definition mkloc :: "nat \<Rightarrow> nat \<Rightarrow> nat \<Rightarrow> nat \<Rightarrow> SourceLocation option" where
  "mkloc sl sc el ec =
     Some \<lparr>loc_start = \<lparr>loc_line = sl, column = sc\<rparr>,
           loc_end = \<lparr>loc_line = el, column = ec\<rparr>\<rparr>"

definition file_of :: "SourceLocation option \<Rightarrow> node list \<Rightarrow> node" where
  "file_of l body = OtherNode ''File'' l [OtherNode ''Program'' l body]"

text \<open>\<^verbatim>\<open>db.TRIGGER_CHARACTER\<close>\<close>

definition ast_db_dot :: node where
  "ast_db_dot = file_of (mkloc 1 0 1 20)
     [ExpressionStatement (mkloc 1 0 1 20)
        (MemberExpression (mkloc 1 0 1 20)
           (Identifier (mkloc 1 0 1 2) ''db'')
           (Identifier (mkloc 1 3 1 20) ''TRIGGER_CHARACTER'') False)]"

definition parse_db_dot :: parser where
  "parse_db_dot text =
     (if text = ''db.TRIGGER_CHARACTER'' then Some ast_db_dot else None)"

text \<open>\<^verbatim>\<open>db.coll.aggregate([{ $match: { TRIGGER_CHARACTER } }])\<close>\<close>

definition ast_match :: node where
  "ast_match = file_of (mkloc 1 0 1 54)
     [ExpressionStatement (mkloc 1 0 1 54)
        (CallExpression (mkloc 1 0 1 54)
           (MemberExpression (mkloc 1 0 1 17)
              (MemberExpression (mkloc 1 0 1 7)
                 (Identifier (mkloc 1 0 1 2) ''db'')
                 (Identifier (mkloc 1 3 1 7) ''coll'') False)
              (Identifier (mkloc 1 8 1 17) ''aggregate'') False)
           [ArrayExpression (mkloc 1 18 1 53)
              [Some (ObjectExpression (mkloc 1 19 1 52)
                 [ObjectProperty (mkloc 1 21 1 50)
                    (Identifier (mkloc 1 21 1 27) ''$match'')
                    (ObjectExpression (mkloc 1 29 1 50)
                       [ObjectProperty (mkloc 1 31 1 48)
                          (Identifier (mkloc 1 31 1 48) ''TRIGGER_CHARACTER'')
                          (Identifier (mkloc 1 31 1 48) ''TRIGGER_CHARACTER'')])])]])]"

definition parse_match :: parser where
  "parse_match text =
     (if text = ''db.coll.aggregate([{ $match: { TRIGGER_CHARACTER } }])''
      then Some ast_match else None)"

text \<open>\<^verbatim>\<open>db.coll.find({}).TRIGGER_CHARACTER\<close>\<close>

definition find_member :: node where
  "find_member =
     MemberExpression (mkloc 1 0 1 34)
       (CallExpression (mkloc 1 0 1 16)
          (MemberExpression (mkloc 1 0 1 12)
             (MemberExpression (mkloc 1 0 1 7)
                (Identifier (mkloc 1 0 1 2) ''db'')
                (Identifier (mkloc 1 3 1 7) ''coll'') False)
             (Identifier (mkloc 1 8 1 12) ''find'') False)
          [ObjectExpression (mkloc 1 13 1 15) []])
       (Identifier (mkloc 1 17 1 34) ''TRIGGER_CHARACTER'') False"

definition ast_find :: node where
  "ast_find = file_of (mkloc 1 0 1 34) [ExpressionStatement (mkloc 1 0 1 34) find_member]"

definition parse_find :: parser where
  "parse_find text =
     (if text = ''db.coll.find({}).TRIGGER_CHARACTER'' then Some ast_find else None)"

text \<open>Three lines: \<^verbatim>\<open>use('db')\<close>, \<^verbatim>\<open>use('db2')\<close> and \<^verbatim>\<open>TRIGGER_CHARACTER\<close>.\<close>

definition ast_use2 :: node where
  "ast_use2 = file_of (mkloc 1 0 3 17)
     [ExpressionStatement (mkloc 1 0 1 9)
        (CallExpression (mkloc 1 0 1 9) (Identifier (mkloc 1 0 1 3) ''use'')
           [StringLiteral (mkloc 1 4 1 8) ''db'']),
      ExpressionStatement (mkloc 2 0 2 10)
        (CallExpression (mkloc 2 0 2 10) (Identifier (mkloc 2 0 2 3) ''use'')
           [StringLiteral (mkloc 2 4 2 9) ''db2'']),
      ExpressionStatement (mkloc 3 0 3 17)
        (Identifier (mkloc 3 0 3 17) ''TRIGGER_CHARACTER'')]"

definition parse_use2 :: parser where
  "parse_use2 text =
     (if text = ''use('db')\<newline>use('db2')\<newline>TRIGGER_CHARACTER''
      then Some ast_use2 else None)"

text \<open>
  Member accesses off the bare identifiers \<^verbatim>\<open>sp\<close> and \<^verbatim>\<open>db\<close> with the marker as property, and
  an identifier that starts a line.
\<close>

definition sp_member :: node where
  "sp_member =
     MemberExpression (mkloc 1 0 1 20)
       (Identifier (mkloc 1 0 1 2) ''sp'')
       (Identifier (mkloc 1 3 1 20) ''TRIGGER_CHARACTER'') False"

definition db_member :: node where
  "db_member =
     MemberExpression (mkloc 1 0 1 20)
       (Identifier (mkloc 1 0 1 2) ''db'')
       (Identifier (mkloc 1 3 1 20) ''TRIGGER_CHARACTER'') False"

definition first_identifier :: node where
  "first_identifier = Identifier (mkloc 1 0 1 2) ''db''"

text \<open>A visitor whose state is the all-defaults CompletionState, with a selection.\<close>

definition fresh_at :: "VisitorSelection \<Rightarrow> Visitor" where
  "fresh_at selection =
     \<lparr>v_state = Completion getDefaultsForCompletion, v_selection = selection\<rparr>"

definition cursor_at :: "nat \<Rightarrow> nat \<Rightarrow> VisitorSelection" where
  "cursor_at l c =
     \<lparr>sel_start = \<lparr>line = l, character = c\<rparr>, sel_end = \<lparr>line = 0, character = 0\<rparr>\<rparr>"

text \<open>A selection from the start of the first line to its sixth character.\<close>

definition sel05 :: VisitorSelection where
  "sel05 = \<lparr>sel_start = \<lparr>line = 0, character = 0\<rparr>, sel_end = \<lparr>line = 0, character = 5\<rparr>\<rparr>"

text \<open>A parser that fails on every text.\<close>

definition parse_fails :: parser where
  "parse_fails text = None"

section \<open>Properties\<close>

subsection \<open>Lines of a text\<close>

lemma split_lines_not_Nil: "split_lines s \<noteq> []"
  by (induction s) (auto split: list.splits)

lemma split_lines_plain: "newline \<notin> set l \<Longrightarrow> split_lines l = [l]"
  by (induction l) auto

lemma split_lines_append:
  "newline \<notin> set l \<Longrightarrow> split_lines (l @ newline # rest) = l # split_lines rest"
  by (induction l) auto

lemma split_join_lines:
  "ls \<noteq> [] \<Longrightarrow> \<forall>l \<in> set ls. newline \<notin> set l \<Longrightarrow> split_lines (join_lines ls) = ls"
  by (induction ls rule: join_lines.induct) (auto simp: split_lines_plain split_lines_append)

lemma split_lines_no_newline: "l \<in> set (split_lines s) \<Longrightarrow> newline \<notin> set l"
proof (induction s arbitrary: l)
  case Nil
  then show ?case by simp
next
  case (Cons c cs)
  then show ?case
    by (cases "split_lines cs") (auto split: if_splits)
qed

lemma PLACEHOLDER_no_newline: "newline \<notin> set PLACEHOLDER"
  by (simp add: PLACEHOLDER_def newline_def)

lemma split_lines_injected:
  assumes "i < length (split_lines s)"
  shows "split_lines (join_lines ((split_lines s)
           [i := take c (split_lines s ! i) @ PLACEHOLDER @ drop c (split_lines s ! i)]))
         = (split_lines s)
           [i := take c (split_lines s ! i) @ PLACEHOLDER @ drop c (split_lines s ! i)]"
proof (rule split_join_lines)
  show "(split_lines s)
          [i := take c (split_lines s ! i) @ PLACEHOLDER @ drop c (split_lines s ! i)] \<noteq> []"
    by (simp add: split_lines_not_Nil)
next
  have a: "newline \<notin> set (split_lines s ! i)"
    using assms split_lines_no_newline nth_mem by blast
  have "newline \<notin> set (take c (split_lines s ! i) @ PLACEHOLDER @ drop c (split_lines s ! i))"
    using a PLACEHOLDER_no_newline
    by (auto dest: in_set_takeD in_set_dropD)
  then show "\<forall>l\<in>set ((split_lines s)
          [i := take c (split_lines s ! i) @ PLACEHOLDER @ drop c (split_lines s ! i)]).
        newline \<notin> set l"
    using split_lines_no_newline [of _ s]
    by (auto dest!: set_update_subset_insert [THEN subsetD])
qed

subsection \<open>The injector rewrites the cursor's line only\<close>

text \<open>
  C5. For a cursor on a line of the text, \<open>_handleTriggerCharacter\<close> returns a text (it
  does not throw) with the same number of lines; every line but the cursor's is the
  line of the input; the cursor's line is the text before the cursor, the marker, and
  the text from the cursor on; and at character offset 0 it is the marker followed by
  the whole line of the input.
\<close>

theorem handleTriggerCharacter_frame:
  assumes "line position < length (split_lines textFromEditor)"
  shows "\<exists>out. handleTriggerCharacter textFromEditor position = Inr out \<and>
           length (split_lines out) = length (split_lines textFromEditor) \<and>
           (\<forall>i < length (split_lines textFromEditor). i \<noteq> line position \<longrightarrow>
              split_lines out ! i = split_lines textFromEditor ! i) \<and>
           split_lines out ! line position =
             take (character position) (split_lines textFromEditor ! line position)
               @ PLACEHOLDER
               @ drop (character position) (split_lines textFromEditor ! line position) \<and>
           (character position = 0 \<longrightarrow>
              split_lines out ! line position =
                PLACEHOLDER @ split_lines textFromEditor ! line position)"
proof -
  let ?ls = "split_lines textFromEditor"
  let ?c = "character position"
  let ?new = "take ?c (?ls ! line position) @ PLACEHOLDER @ drop ?c (?ls ! line position)"
  have out: "handleTriggerCharacter textFromEditor position
               = Inr (join_lines (?ls[line position := ?new]))"
    using assms by (simp add: handleTriggerCharacter_def Let_def)
  have split: "split_lines (join_lines (?ls[line position := ?new])) = ?ls[line position := ?new]"
    using assms by (rule split_lines_injected)
  have len: "length (split_lines (join_lines (?ls[line position := ?new]))) = length ?ls"
    by (simp add: split)
  have others: "\<forall>i < length ?ls. i \<noteq> line position \<longrightarrow>
      split_lines (join_lines (?ls[line position := ?new])) ! i = ?ls ! i"
    by (simp add: split)
  have cursor: "split_lines (join_lines (?ls[line position := ?new])) ! line position = ?new"
    using assms by (simp add: split)
  have zero: "character position = 0 \<longrightarrow>
      split_lines (join_lines (?ls[line position := ?new])) ! line position
        = PLACEHOLDER @ ?ls ! line position"
    using cursor by auto
  show ?thesis
    by (rule exI [of _ "join_lines (?ls[line position := ?new])"])
       (intro conjI out len others cursor zero)
qed

theorem handleTriggerCharacter_frame_witness:
  "handleTriggerCharacter ''ab\<newline>cd'' \<lparr>line = 1, character = 0\<rparr>
     = Inr ''ab\<newline>TRIGGER_CHARACTERcd'' \<and>
   split_lines ''ab\<newline>TRIGGER_CHARACTERcd'' ! 0 = split_lines ''ab\<newline>cd'' ! 0 \<and>
   split_lines ''ab\<newline>TRIGGER_CHARACTERcd'' ! 1 = PLACEHOLDER @ split_lines ''ab\<newline>cd'' ! 1"
proof -
  have len: "line \<lparr>line = 1, character = 0\<rparr> < length (split_lines ''ab\<newline>cd'')"
    by (simp add: newline_def)
  from handleTriggerCharacter_frame [OF len]
  show ?thesis
    by (simp add: handleTriggerCharacter_def newline_def PLACEHOLDER_def)
qed

subsection \<open>A traversal is a fold over the nodes in enter order\<close>

lemma fold_traverseNode:
  assumes "\<And>c s. c \<in> set cs \<Longrightarrow>
             traverseNode enter c (enter c s) = fold enter (entered c) (enter c s)"
  shows "fold (\<lambda>c s. traverseNode enter c (enter c s)) cs st
           = fold enter (concat (map enter_order cs)) st"
  using assms
proof (induction cs arbitrary: st)
  case Nil
  then show ?case by simp
next
  case (Cons c cs)
  have "enter_order c = c # entered c"
    by (simp add: entered_def enter_order.simps [of c])
  with Cons show ?case
    by simp
qed

lemma traverseNode_fold: "traverseNode enter n st = fold enter (entered n) st"
proof (induction enter n st rule: traverseNode.induct)
  case (1 enter n st)
  have "fold (\<lambda>c s. traverseNode enter c (enter c s)) (children n) st
          = fold enter (concat (map enter_order (children n))) st"
    by (rule fold_traverseNode) (rule "1.IH")
  then show ?case
    by (simp add: entered_def traverseNode.simps [of enter n st])
qed

subsection \<open>Steps that let the state grow\<close>


lemma state_le_refl: "state_le c c"
  by (simp add: state_le_def)

lemma state_le_trans: "state_le a b \<Longrightarrow> state_le b c \<Longrightarrow> state_le a c"
  by (simp add: state_le_def)

lemma keeps_db_refl: "keeps_db c c"
  by (simp add: keeps_db_def state_le_refl)

lemma keeps_db_trans: "keeps_db a b \<Longrightarrow> keeps_db b c \<Longrightarrow> keeps_db a c"
  by (auto simp: keeps_db_def intro: state_le_trans)

lemma lifts_refl: "(\<And>c. R c c) \<Longrightarrow> lifts R this this"
  by (simp add: lifts_def)

lemma lifts_trans:
  assumes "\<And>a b c. R a b \<Longrightarrow> R b c \<Longrightarrow> R a c"
    and "lifts R u v" and "lifts R v w"
  shows "lifts R u w"
  using assms(2,3) unfolding lifts_def by (metis assms(1))

lemma lifts_weaken: "(\<And>c c'. R c c' \<Longrightarrow> R' c c') \<Longrightarrow> lifts R u v \<Longrightarrow> lifts R' u v"
  unfolding lifts_def by blast

lemma lifts_fold:
  assumes "\<And>c. R c c" and "\<And>a b c. R a b \<Longrightarrow> R b c \<Longrightarrow> R a c"
    and "\<And>x v. x \<in> set xs \<Longrightarrow> lifts R v (f x v)"
  shows "lifts R this (fold f xs this)"
  using assms(3)
proof (induction xs arbitrary: this)
  case Nil
  show ?case by (simp add: lifts_refl assms(1))
next
  case (Cons x xs)
  have "lifts R this (f x this)" using Cons.prems by simp
  moreover have "lifts R (f x this) (fold f xs (f x this))"
    using Cons.prems by (intro Cons.IH) simp
  ultimately show ?case
    using lifts_trans [of R, OF assms(2)] by simp
qed

lemma lifts_traverse:
  assumes "\<And>c. R c c" and "\<And>a b c. R a b \<Longrightarrow> R b c \<Longrightarrow> R a c"
    and "\<And>x v. lifts R v (enter x v)"
  shows "lifts R this (traverse parent enter this)"
proof (cases parent)
  case None
  then show ?thesis by (simp add: traverse_def lifts_refl assms(1))
next
  case (Some n)
  then show ?thesis
    using lifts_fold [of R "entered n" enter this, OF assms(1,2)] assms(3)
    by (simp add: traverse_def traverseNode_fold)
qed

text \<open>A check that sets one flag under a condition.\<close>

lemma lifts_set_flag:
  assumes "\<And>c. R c c" and "\<And>c. R c (upd (\<lambda>_. True) c)"
  shows "lifts R this (if b then this\<lparr>v_state := set_flag upd (v_state this)\<rparr> else this)"
  using assms by (cases "v_state this") (auto simp: lifts_def)

lemma keeps_db_flag:
  "keeps_db c (isObjectKey_update (\<lambda>_. True) c)"
  "keeps_db c (isIdentifierObjectValue_update (\<lambda>_. True) c)"
  "keeps_db c (isTextObjectValue_update (\<lambda>_. True) c)"
  "keeps_db c (isStage_update (\<lambda>_. True) c)"
  "keeps_db c (isCollectionSymbol_update (\<lambda>_. True) c)"
  "keeps_db c (isStreamProcessorSymbol_update (\<lambda>_. True) c)"
  "keeps_db c (isUseCallExpression_update (\<lambda>_. True) c)"
  "keeps_db c (isGlobalSymbol_update (\<lambda>_. True) c)"
  "keeps_db c (isDbSymbol_update (\<lambda>_. True) c)"
  "keeps_db c (isSpSymbol_update (\<lambda>_. True) c)"
  "keeps_db c (isCollectionName_update (\<lambda>_. True) c)"
  "keeps_db c (isStreamProcessorName_update (\<lambda>_. True) c)"
  "keeps_db c (isAggregationCursor_update (\<lambda>_. True) c)"
  "keeps_db c (isFindCursor_update (\<lambda>_. True) c)"
  by (simp_all add: keeps_db_def state_le_def)

lemma keeps_db_name:
  "keeps_db c (c\<lparr>collectionName := Some v\<rparr>)"
  "keeps_db c (c\<lparr>streamProcessorName := Some v\<rparr>)"
  "keeps_db c (c\<lparr>stageOperator := Some v\<rparr>)"
  by (simp_all add: keeps_db_def state_le_def)

lemmas flag_check = lifts_set_flag [of keeps_db, OF keeps_db_refl]

lemma call_checks_keep_db:
  "lifts keeps_db this (checkIsUseCallAsSimpleString node this)"
  "lifts keeps_db this (checkIsUseCallAsTemplate node this)"
  "lifts keeps_db this (checkGetCollectionAsSimpleString node this)"
  "lifts keeps_db this (checkGetCollectionAsTemplate node this)"
  "lifts keeps_db this (checkGetStreamProcessorAsSimpleString node this)"
  "lifts keeps_db this (checkGetStreamProcessorAsTemplate node this)"
  unfolding checkIsUseCallAsSimpleString_def checkIsUseCallAsTemplate_def
    checkGetCollectionAsSimpleString_def checkGetCollectionAsTemplate_def
    checkGetStreamProcessorAsSimpleString_def checkGetStreamProcessorAsTemplate_def
  by (rule flag_check, rule keeps_db_flag)+


lemma kd_refl: "lifts keeps_db this this"
  by (rule lifts_refl) (rule keeps_db_refl)

lemma kd_trans: "lifts keeps_db u v \<Longrightarrow> lifts keeps_db v w \<Longrightarrow> lifts keeps_db u w"
  by (rule lifts_trans [of keeps_db]) (rule keeps_db_trans)

lemma kd_if:
  "lifts keeps_db this a \<Longrightarrow> lifts keeps_db this b \<Longrightarrow>
   lifts keeps_db this (if cond then a else b)"
  by simp

lemma kd_fold:
  "(\<And>x v. lifts keeps_db v (f x v)) \<Longrightarrow> lifts keeps_db this (fold f xs this)"
  by (rule lifts_fold [of keeps_db]) (auto intro: keeps_db_refl keeps_db_trans)

lemma kd_traverse:
  "(\<And>x v. lifts keeps_db v (enter x v)) \<Longrightarrow> lifts keeps_db this (traverse parent enter this)"
  by (rule lifts_traverse [of keeps_db]) (auto intro: keeps_db_refl keeps_db_trans)

lemma kd_set_name:
  "lifts keeps_db this (this\<lparr>v_state := set_collectionName x (v_state this)\<rparr>)"
  "lifts keeps_db this (this\<lparr>v_state := set_streamProcessorName x (v_state this)\<rparr>)"
  "lifts keeps_db this (this\<lparr>v_state := set_stageOperator x (v_state this)\<rparr>)"
  by (cases "v_state this"; simp add: lifts_def keeps_db_name)+

lemma kd_set_flag:
  assumes "\<And>c. keeps_db c (upd (\<lambda>_. True) c)"
  shows "lifts keeps_db this (this\<lparr>v_state := set_flag upd (v_state this)\<rparr>)"
  using flag_check [of upd this True, OF assms] by simp

lemmas call_checks_step = call_checks_keep_db [THEN [2] kd_trans]

lemma call_composites_keep_db:
  "lifts keeps_db this (checkIsUseCall node this)"
  "lifts keeps_db this (checkIsCollectionNameAsCallExpression node this)"
  "lifts keeps_db this (checkIsStreamProcessorNameAsCallExpression node this)"
  unfolding checkIsUseCall_def checkIsCollectionNameAsCallExpression_def
    checkIsStreamProcessorNameAsCallExpression_def
  by (intro kd_if call_checks_step kd_refl)+

lemma member_checks_keep_db:
  "lifts keeps_db this (checkHasAggregationCall node this)"
  "lifts keeps_db this (checkHasFindCall node this)"
  "lifts keeps_db this (checkIsCollectionMemberExpression node this)"
  "lifts keeps_db this (checkIsCollectionCallExpression node this)"
  "lifts keeps_db this (checkIsCollectionNameAsMemberExpression node this)"
  "lifts keeps_db this (checkIsStreamProcessorMemberExpression node this)"
  "lifts keeps_db this (checkIsStreamProcessorCallExpression node this)"
  unfolding checkHasAggregationCall_def checkHasFindCall_def
    checkIsCollectionMemberExpression_def checkIsCollectionCallExpression_def
    checkIsCollectionNameAsMemberExpression_def checkIsStreamProcessorMemberExpression_def
    checkIsStreamProcessorCallExpression_def
  by (rule flag_check, rule keeps_db_flag)+

lemma member_name_checks_keep_db:
  "lifts keeps_db this (checkHasCollectionNameMemberExpression node this)"
  "lifts keeps_db this (checkHasCollectionNameCallExpression node this)"
  "lifts keeps_db this (checkHasStreamProcessorNameMemberExpression node this)"
  "lifts keeps_db this (checkHasStreamProcessorNameCallExpression node this)"
  unfolding checkHasCollectionNameMemberExpression_def checkHasCollectionNameCallExpression_def
    checkHasStreamProcessorNameMemberExpression_def
    checkHasStreamProcessorNameCallExpression_def
  by (intro kd_if kd_refl kd_set_name)+

lemma sp_name_member_keeps_db:
  "lifts keeps_db this (checkIsStreamProcessorNameAsMemberExpression node this)"
  unfolding checkIsStreamProcessorNameAsMemberExpression_def
  by (cases "v_state this") (auto simp: lifts_def keeps_db_def state_le_def)

lemmas member_checks_step =
  member_checks_keep_db [THEN [2] kd_trans] member_name_checks_keep_db [THEN [2] kd_trans]
  sp_name_member_keeps_db [THEN [2] kd_trans]

lemma member_composites_keep_db:
  "lifts keeps_db this (checkIsCollectionSymbol node this)"
  "lifts keeps_db this (checkHasCollectionName node this)"
  "lifts keeps_db this (checkIsStreamProcessorSymbol node this)"
  "lifts keeps_db this (checkHasStreamProcessorName node this)"
  unfolding checkIsCollectionSymbol_def checkHasCollectionName_def
    checkIsStreamProcessorSymbol_def checkHasStreamProcessorName_def
  by (intro member_checks_step kd_refl)+

lemma visitMemberExpression_keeps_db:
  "lifts keeps_db this (visitMemberExpression node this)"
  unfolding visitMemberExpression_def
  by (intro kd_if member_checks_step member_composites_keep_db [THEN [2] kd_trans] kd_refl)

lemma statement_checks_keep_db:
  "lifts keeps_db this (checkIsGlobalSymbol node this)"
  "lifts keeps_db this (checkIsDbSymbol node this)"
  "lifts keeps_db this (checkIsSpSymbol node this)"
  unfolding checkIsGlobalSymbol_def checkIsDbSymbol_def checkIsSpSymbol_def
  by (rule flag_check, rule keeps_db_flag)+

lemma visitExpressionStatement_keeps_db:
  "lifts keeps_db this (visitExpressionStatement node this)"
  unfolding visitExpressionStatement_def
  by (intro kd_if statement_checks_keep_db [THEN [2] kd_trans] kd_refl)

lemma object_checks_keep_db:
  "lifts keeps_db this (checkIsObjectKey node this)"
  "lifts keeps_db this (checkIsIdentifierObjectValue node this)"
  "lifts keeps_db this (checkIsTextObjectValue node this)"
  unfolding checkIsObjectKey_def checkIsIdentifierObjectValue_def checkIsTextObjectValue_def
  by (rule kd_fold, rule flag_check, rule keeps_db_flag)+

lemma visitObjectExpression_keeps_db:
  "lifts keeps_db this (visitObjectExpression node this)"
  unfolding visitObjectExpression_def
  by (intro kd_if object_checks_keep_db [THEN [2] kd_trans] kd_refl)

lemma checkIsStage_keeps_db: "lifts keeps_db this (checkIsStage node this)"
  unfolding checkIsStage_def
  by (intro kd_fold kd_if kd_refl kd_set_flag keeps_db_flag)

lemma stageOperatorEnter_keeps_db: "lifts keeps_db this (stageOperatorEnter opname node this)"
  unfolding stageOperatorEnter_def
  by (intro kd_if kd_refl kd_set_name)

lemma checkIsStageOperator_keeps_db: "lifts keeps_db this (checkIsStageOperator node this)"
  unfolding checkIsStageOperator_def
  by (intro kd_fold kd_if kd_refl kd_traverse stageOperatorEnter_keeps_db)

lemma visitArrayExpression_keeps_db:
  "lifts keeps_db this (visitArrayExpression node this)"
  unfolding visitArrayExpression_def
  by (intro kd_if checkIsStage_keeps_db [THEN [2] kd_trans]
        checkIsStageOperator_keeps_db [THEN [2] kd_trans] kd_refl)

subsection \<open>The database name\<close>

lemma keeps_db_le: "keeps_db c c' \<Longrightarrow> state_le c c'"
  by (simp add: keeps_db_def)

lemma lifts_keeps_dbD:
  assumes "lifts keeps_db this this'" and "v_state this = Completion c"
  obtains c' where "v_state this' = Completion c'" and "databaseName c' = databaseName c"
    and "state_le c c'" and "v_selection this' = v_selection this"
  using assms unfolding lifts_def keeps_db_def by blast

text \<open>What _checkHasDatabaseName does to a CompletionState.\<close>

lemma checkHasDatabaseName_Completion:
  assumes "v_state this = Completion c" and "is_CallExpression node"
  shows "checkHasDatabaseName node this =
           (if spec_use_call_before (sel_start (v_selection this)) node
            then this\<lparr>v_state := Completion (c\<lparr>databaseName := Some (svalue (arguments node ! 0))\<rparr>)\<rparr>
            else this)"
proof (cases "loc node")
  case None
  then show ?thesis
    by (simp add: checkHasDatabaseName_def spec_use_call_before_def)
next
  case (Some l)
  have "(int (loc_line (loc_end l)) - 1 < int (line (sel_start (v_selection this)))) =
        (loc_line (loc_end l) < line (sel_start (v_selection this)) + 1)"
    by linarith
  moreover have "(int (line (sel_start (v_selection this))) = int (loc_line (loc_end l)) - 1) =
        (loc_line (loc_end l) = line (sel_start (v_selection this)) + 1)"
    by linarith
  ultimately show ?thesis
    using assms Some
    by (auto simp: checkHasDatabaseName_def spec_use_call_before_def)
qed

lemma visitCallExpression_databaseName:
  assumes "v_state this = Completion c"
  obtains c' where "v_state (visitCallExpression node this) = Completion c'"
    and "databaseName c' =
           (if spec_use_call_before (sel_start (v_selection this)) node
            then Some (svalue (arguments node ! 0)) else databaseName c)"
    and "state_le c c'"
    and "v_selection (visitCallExpression node this) = v_selection this"
proof (cases "is_CallExpression node")
  case False
  then have "visitCallExpression node this = this"
    by (simp add: visitCallExpression_def)
  moreover from False have "\<not> spec_use_call_before (sel_start (v_selection this)) node"
    by (simp add: spec_use_call_before_def)
  ultimately show ?thesis
    using assms that [of c] by (simp add: state_le_refl)
next
  case True
  let ?mid = "checkIsStreamProcessorNameAsCallExpression node
               (checkIsCollectionNameAsCallExpression node (checkIsUseCall node this))"
  have "lifts keeps_db this ?mid"
    by (intro call_composites_keep_db [THEN [2] kd_trans] kd_refl)
  then obtain c1 where c1: "v_state ?mid = Completion c1" "databaseName c1 = databaseName c"
      "state_le c c1" "v_selection ?mid = v_selection this"
    using assms by (rule lifts_keeps_dbD)
  have call: "visitCallExpression node this = checkHasDatabaseName node ?mid"
    using True by (simp add: visitCallExpression_def)
  show ?thesis
  proof (cases "spec_use_call_before (sel_start (v_selection this)) node")
    case use: True
    have "state_le c (c1\<lparr>databaseName := Some (svalue (arguments node ! 0))\<rparr>)"
      using c1(3) by (simp add: state_le_def)
    then show ?thesis
      using that [of "c1\<lparr>databaseName := Some (svalue (arguments node ! 0))\<rparr>"] use c1
      by (simp add: call checkHasDatabaseName_Completion [OF c1(1) True])
  next
    case nouse: False
    then show ?thesis
      using that [of c1] c1
      by (simp add: call checkHasDatabaseName_Completion [OF c1(1) True])
  qed
qed

lemma after_call_keeps_db:
  "lifts keeps_db this
     (visitArrayExpression node
       (visitObjectExpression node
         (visitExpressionStatement node
           (visitMemberExpression node this))))"
  by (intro visitArrayExpression_keeps_db [THEN [2] kd_trans]
        visitObjectExpression_keeps_db [THEN [2] kd_trans]
        visitExpressionStatement_keeps_db [THEN [2] kd_trans]
        visitMemberExpression_keeps_db [THEN [2] kd_trans] kd_refl)

lemma visitor_enter_databaseName:
  assumes "v_state this = Completion c"
  obtains c' where "v_state (visitor_enter node this) = Completion c'"
    and "databaseName c' =
           (if spec_use_call_before (sel_start (v_selection this)) node
            then Some (svalue (arguments node ! 0)) else databaseName c)"
    and "state_le c c'"
    and "v_selection (visitor_enter node this) = v_selection this"
proof -
  obtain c1 where c1: "v_state (visitCallExpression node this) = Completion c1"
      "databaseName c1 =
           (if spec_use_call_before (sel_start (v_selection this)) node
            then Some (svalue (arguments node ! 0)) else databaseName c)"
      "state_le c c1"
      "v_selection (visitCallExpression node this) = v_selection this"
    using assms by (rule visitCallExpression_databaseName)
  obtain c2 where c2: "v_state (visitor_enter node this) = Completion c2"
      "databaseName c2 = databaseName c1" "state_le c1 c2"
      "v_selection (visitor_enter node this) = v_selection (visitCallExpression node this)"
    using after_call_keeps_db [of "visitCallExpression node this" node] c1(1)
    unfolding visitor_enter_def by (rule lifts_keeps_dbD)
  show ?thesis
    using that [of c2] c1 c2 state_le_trans by auto
qed

lemma fold_visitor_enter:
  assumes "v_state this = Completion c"
  shows "\<exists>c'. v_state (fold visitor_enter ns this) = Completion c' \<and>
           databaseName c' =
             (case filter (spec_use_call_before (sel_start (v_selection this))) ns of
                [] \<Rightarrow> databaseName c
              | q # qs \<Rightarrow> Some (svalue (arguments (last (q # qs)) ! 0))) \<and>
           state_le c c' \<and>
           v_selection (fold visitor_enter ns this) = v_selection this"
  using assms
proof (induction ns arbitrary: this c)
  case Nil
  then show ?case by (simp add: state_le_refl)
next
  case (Cons n ns)
  let ?pos = "sel_start (v_selection this)"
  obtain c1 where c1: "v_state (visitor_enter n this) = Completion c1"
      "databaseName c1 =
         (if spec_use_call_before ?pos n then Some (svalue (arguments n ! 0)) else databaseName c)"
      "state_le c c1"
      "v_selection (visitor_enter n this) = v_selection this"
    using Cons.prems by (rule visitor_enter_databaseName)
  from Cons.IH [OF c1(1)] c1(4)
  obtain c' where c': "v_state (fold visitor_enter ns (visitor_enter n this)) = Completion c'"
      "databaseName c' =
         (case filter (spec_use_call_before ?pos) ns of
            [] \<Rightarrow> databaseName c1
          | q # qs \<Rightarrow> Some (svalue (arguments (last (q # qs)) ! 0)))"
      "state_le c1 c'"
      "v_selection (fold visitor_enter ns (visitor_enter n this)) = v_selection this"
    by auto
  have "databaseName c' =
         (case filter (spec_use_call_before ?pos) (n # ns) of
            [] \<Rightarrow> databaseName c
          | q # qs \<Rightarrow> Some (svalue (arguments (last (q # qs)) ! 0)))"
    using c'(2) c1(2) by (cases "filter (spec_use_call_before ?pos) ns") auto
  moreover have "state_le c c'"
    using c1(3) c'(3) by (rule state_le_trans)
  ultimately show ?case
    using c'(1,4) by simp
qed

lemma traverse_Some_fold:
  "traverse (Some root) enter this = fold enter (entered root) this"
  by (simp add: traverse_def traverseNode_fold)

text \<open>
  C4. When the injector returns a text and the parser a tree for it,
  \<open>parseASTForCompletion\<close> returns a CompletionState whose \<open>databaseName\<close> is the
  argument of the last call, in the order in which the traversal enters the nodes, among
  the calls \<open>use("lit")\<close> that end before the cursor (on an earlier line, or on the
  cursor's line at or before its character), and \<open>null\<close> when there is no such
  call. For \<open>use('db')\<close> then \<open>use('db2')\<close>, both before the cursor, it is \<open>db2\<close>.
\<close>

theorem databaseName_last_use_call:
  assumes "handleTriggerCharacter textFromEditor position = Inr injected"
    and "parse injected = Some root"
  shows "\<exists>c. fst (parseASTForCompletion parse textFromEditor position this) = Inr (Completion c) \<and>
           databaseName c =
             (case filter (spec_use_call_before position) (entered root) of
                [] \<Rightarrow> None
              | q # qs \<Rightarrow> Some (svalue (arguments (last (q # qs)) ! 0)))"
proof -
  let ?sel = "\<lparr>sel_start = position, sel_end = \<lparr>line = 0, character = 0\<rparr>\<rparr>"
  let ?v0 = "this\<lparr>v_state := Completion getDefaultsForCompletion, v_selection := ?sel\<rparr>"
  have run: "parseASTForCompletion parse textFromEditor position this =
          (Inr (v_state (fold visitor_enter (entered root) ?v0)),
           fold visitor_enter (entered root) ?v0)"
    using assms
    by (simp add: parseASTForCompletion_def parseAST_def Let_def traverse_Some_fold)
  have "v_state ?v0 = Completion getDefaultsForCompletion"
    by simp
  from fold_visitor_enter [OF this, of "entered root"]
  obtain c' where c': "v_state (fold visitor_enter (entered root) ?v0) = Completion c'"
    "databaseName c' =
       (case filter (spec_use_call_before position) (entered root) of
          [] \<Rightarrow> databaseName getDefaultsForCompletion
        | q # qs \<Rightarrow> Some (svalue (arguments (last (q # qs)) ! 0)))"
    by auto
  have "databaseName getDefaultsForCompletion = None"
    by (simp add: getDefaultsForCompletion_def)
  with c' show ?thesis
    by (simp add: run split: list.splits)
qed

text \<open>
  C7. During a traversal that starts from a CompletionState, the state at every point
  is a CompletionState that has grown (\<open>state_le\<close>) since the start, and the final
  state has grown since that point: a flag that is set stays set, and a name that is a
  string stays a string. The point is given by the nodes entered before it.
\<close>

theorem traversal_monotonic:
  assumes "v_state this = Completion c" and "entered root = before @ after"
  shows "\<exists>c1 c2. v_state (fold visitor_enter before this) = Completion c1 \<and>
           v_state (traverse (Some root) visitor_enter this) = Completion c2 \<and>
           state_le c c1 \<and> state_le c1 c2"
proof -
  obtain c1 where c1: "v_state (fold visitor_enter before this) = Completion c1" "state_le c c1"
    using fold_visitor_enter [OF assms(1), of before] by auto
  obtain c2 where c2: "v_state (fold visitor_enter after (fold visitor_enter before this)) = Completion c2"
      "state_le c1 c2"
    using fold_visitor_enter [OF c1(1), of after] by auto
  show ?thesis
    using c1 c2 by (simp add: traverse_Some_fold assms(2))
qed

subsection \<open>Evaluating the visitor on a tree\<close>

lemmas check_defs =
  checkIsUseCallAsSimpleString_def checkIsUseCallAsTemplate_def checkIsUseCall_def
  checkGetCollectionAsSimpleString_def checkGetCollectionAsTemplate_def
  checkIsCollectionNameAsCallExpression_def checkGetStreamProcessorAsSimpleString_def
  checkGetStreamProcessorAsTemplate_def checkIsStreamProcessorNameAsCallExpression_def
  checkHasDatabaseName_def visitCallExpression_def
  checkHasAggregationCall_def checkHasFindCall_def checkIsCollectionMemberExpression_def
  checkIsCollectionCallExpression_def checkIsCollectionSymbol_def
  checkIsCollectionNameAsMemberExpression_def checkHasCollectionNameMemberExpression_def
  checkHasCollectionNameCallExpression_def checkHasCollectionName_def
  checkIsStreamProcessorMemberExpression_def checkIsStreamProcessorCallExpression_def
  checkIsStreamProcessorSymbol_def checkIsStreamProcessorNameAsMemberExpression_def
  checkHasStreamProcessorNameMemberExpression_def checkHasStreamProcessorNameCallExpression_def
  checkHasStreamProcessorName_def visitMemberExpression_def
  checkIsGlobalSymbol_def checkIsDbSymbol_def checkIsSpSymbol_def visitExpressionStatement_def
  checkIsObjectKey_def checkIsIdentifierObjectValue_def checkIsTextObjectValue_def
  visitObjectExpression_def checkIsStage_def stageOperatorEnter_def checkIsStageOperator_def
  visitArrayExpression_def visitor_enter_def

lemmas tree_defs = entered_def enter_order.simps file_of_def mkloc_def traverse_Some_fold
  PLACEHOLDER_def List.map_filter_def

lemma inj_db_dot:
  "handleTriggerCharacter ''db.'' \<lparr>line = 0, character = 3\<rparr> = Inr ''db.TRIGGER_CHARACTER''"
  by (simp add: handleTriggerCharacter_def newline_def PLACEHOLDER_def)

lemma trav_db_dot:
  "v_state (traverse (Some ast_db_dot) visitor_enter
     \<lparr>v_state = Completion getDefaultsForCompletion,
      v_selection = \<lparr>sel_start = \<lparr>line = 0, character = 3\<rparr>, sel_end = \<lparr>line = 0, character = 0\<rparr>\<rparr>\<rparr>)
   = Completion (getDefaultsForCompletion\<lparr>isDbSymbol := True, isCollectionName := True\<rparr>)"
  by (simp add: ast_db_dot_def tree_defs check_defs)

subsection \<open>Parse failure and cursor calls\<close>

text \<open>
  C1. When the parser fails on the marker-injected text, \<open>parseASTForCompletion\<close>
  returns the all-defaults CompletionState, as a value and with no exception.
\<close>

theorem parse_failure_defaults:
  assumes "handleTriggerCharacter textFromEditor position = Inr injected"
    and "parse injected = None"
  shows "fst (parseASTForCompletion parse textFromEditor position this)
           = Inr (Completion getDefaultsForCompletion)"
  using assms
  by (simp add: parseASTForCompletion_def parseAST_def traverse_def Let_def)

theorem parse_failure_defaults_witness:
  "fst (parseASTForCompletion parse_fails ''db.'' \<lparr>line = 0, character = 3\<rparr> new_Visitor)
     = Inr (Completion getDefaultsForCompletion)"
proof -
  have "parse_fails ''db.TRIGGER_CHARACTER'' = None"
    by (simp add: parse_fails_def)
  from parse_failure_defaults [of "''db.''" "\<lparr>line = 0, character = 3\<rparr>"
      "''db.TRIGGER_CHARACTER''" parse_fails new_Visitor, OF inj_db_dot this]
  show ?thesis .
qed

lemma stays_set:
  assumes "lifts keeps_db u v" and "v_state u = Completion c"
  shows "\<exists>c'. v_state v = Completion c' \<and>
           (isFindCursor c \<longrightarrow> isFindCursor c') \<and>
           (isAggregationCursor c \<longrightarrow> isAggregationCursor c')"
proof -
  from assms obtain c' where "v_state v = Completion c'" and "state_le c c'"
    by (rule lifts_keeps_dbD)
  then show ?thesis
    by (simp add: state_le_def)
qed

lemma after_find_keeps_db:
  "lifts keeps_db this
     (checkHasStreamProcessorName node
       (checkIsStreamProcessorNameAsMemberExpression node
         (checkIsStreamProcessorSymbol node
           (checkHasCollectionName node
             (checkIsCollectionNameAsMemberExpression node
               (checkIsCollectionSymbol node this))))))"
  by (intro member_checks_step member_composites_keep_db [THEN [2] kd_trans] kd_refl)

lemma visitor_enter_member:
  assumes "is_MemberExpression node"
  shows "visitor_enter node this =
     visitArrayExpression node
       (visitObjectExpression node
         (visitExpressionStatement node
           (checkHasStreamProcessorName node
             (checkIsStreamProcessorNameAsMemberExpression node
               (checkIsStreamProcessorSymbol node
                 (checkHasCollectionName node
                   (checkIsCollectionNameAsMemberExpression node
                     (checkIsCollectionSymbol node
                       (checkHasFindCall node
                         (checkHasAggregationCall node this))))))))))"
  using assms by (auto simp: visitor_enter_def visitCallExpression_def visitMemberExpression_def)

lemma after_find_all_keeps_db:
  "lifts keeps_db this
     (visitArrayExpression node
       (visitObjectExpression node
         (visitExpressionStatement node
           (checkHasStreamProcessorName node
             (checkIsStreamProcessorNameAsMemberExpression node
               (checkIsStreamProcessorSymbol node
                 (checkHasCollectionName node
                   (checkIsCollectionNameAsMemberExpression node
                     (checkIsCollectionSymbol node this)))))))))"
  by (intro visitArrayExpression_keeps_db [THEN [2] kd_trans]
        visitObjectExpression_keeps_db [THEN [2] kd_trans]
        visitExpressionStatement_keeps_db [THEN [2] kd_trans]
        after_find_keeps_db)

lemma visitor_enter_cursor_call:
  assumes "is_MemberExpression node"
    and "is_CallExpression (object node)"
    and "is_MemberExpression (callee (object node))"
    and "\<not> computed (callee (object node))"
    and "is_Identifier (property (callee (object node)))"
    and "is_Identifier (property node)"
    and "str_includes (name (property node)) PLACEHOLDER"
    and "v_state this = Completion c"
  shows "\<exists>c'. v_state (visitor_enter node this) = Completion c' \<and>
           (name (property (callee (object node))) = ''find'' \<longrightarrow> isFindCursor c') \<and>
           (name (property (callee (object node))) = ''aggregate'' \<longrightarrow> isAggregationCursor c')"
proof -
  let ?a = "checkHasAggregationCall node this"
  let ?f = "checkHasFindCall node ?a"
  have a: "v_state ?a = Completion (if name (property (callee (object node))) = ''aggregate''
             then c\<lparr>isAggregationCursor := True\<rparr> else c)"
    using assms by (simp add: checkHasAggregationCall_def)
  have f: "v_state ?f = Completion (if name (property (callee (object node))) = ''find''
             then c\<lparr>isFindCursor := True\<rparr>
             else if name (property (callee (object node))) = ''aggregate''
             then c\<lparr>isAggregationCursor := True\<rparr> else c)"
    using assms a by (simp add: checkHasFindCall_def)
  from stays_set [OF after_find_all_keeps_db [of ?f node] f]
  show ?thesis
    by (auto simp: visitor_enter_member [OF assms(1)])
qed

text \<open>
  C6. When the tree has a member expression whose object is a call with a non-computed
  member callee and whose own property is an identifier that contains the marker,
  \<open>parseASTForCompletion\<close> returns a state with \<open>isFindCursor\<close> set if the callee's
  property is named \<open>find\<close>, and with \<open>isAggregationCursor\<close> set if it is named
  \<open>aggregate\<close>. An instance is the input \<^verbatim>\<open>db.coll.find({}).\<close> with the cursor at its end.
\<close>

theorem cursor_call_sets_flag:
  assumes "handleTriggerCharacter textFromEditor position = Inr injected"
    and "parse injected = Some root"
    and "node \<in> set (entered root)"
    and "is_MemberExpression node"
    and "is_CallExpression (object node)"
    and "is_MemberExpression (callee (object node))"
    and "\<not> computed (callee (object node))"
    and "is_Identifier (property (callee (object node)))"
    and "is_Identifier (property node)"
    and "str_includes (name (property node)) PLACEHOLDER"
  shows "\<exists>c. fst (parseASTForCompletion parse textFromEditor position this) = Inr (Completion c) \<and>
           (name (property (callee (object node))) = ''find'' \<longrightarrow> isFindCursor c) \<and>
           (name (property (callee (object node))) = ''aggregate'' \<longrightarrow> isAggregationCursor c)"
proof -
  let ?sel = "\<lparr>sel_start = position, sel_end = \<lparr>line = 0, character = 0\<rparr>\<rparr>"
  let ?v0 = "this\<lparr>v_state := Completion getDefaultsForCompletion, v_selection := ?sel\<rparr>"
  have run: "fst (parseASTForCompletion parse textFromEditor position this) =
          Inr (v_state (fold visitor_enter (entered root) ?v0))"
    using assms(1,2)
    by (simp add: parseASTForCompletion_def parseAST_def Let_def traverse_Some_fold)
  from assms(3) obtain before after where split: "entered root = before @ node # after"
    by (auto simp: in_set_conv_decomp)
  have "v_state ?v0 = Completion getDefaultsForCompletion"
    by simp
  from fold_visitor_enter [OF this, of before]
  obtain c1 where c1: "v_state (fold visitor_enter before ?v0) = Completion c1"
    by auto
  from visitor_enter_cursor_call [OF assms(4-10) c1]
  obtain c2 where c2:
      "v_state (visitor_enter node (fold visitor_enter before ?v0)) = Completion c2"
      "name (property (callee (object node))) = ''find'' \<longrightarrow> isFindCursor c2"
      "name (property (callee (object node))) = ''aggregate'' \<longrightarrow> isAggregationCursor c2"
    by auto
  from fold_visitor_enter [OF c2(1), of after]
  obtain c3 where c3:
      "v_state (fold visitor_enter after (visitor_enter node (fold visitor_enter before ?v0)))
         = Completion c3"
      "state_le c2 c3"
    by auto
  have "isFindCursor c2 \<longrightarrow> isFindCursor c3" "isAggregationCursor c2 \<longrightarrow> isAggregationCursor c3"
    using c3(2) by (simp_all add: state_le_def)
  with c2 c3(1) show ?thesis
    by (auto simp: run split)
qed

subsection \<open>Examples, independence of the visitor object, selection geometry\<close>

lemma filt_use2:
  "(case filter (spec_use_call_before \<lparr>line = 2, character = 0\<rparr>) (entered ast_use2) of
      [] \<Rightarrow> None
    | q # qs \<Rightarrow> Some (svalue (arguments (last (q # qs)) ! 0))) = Some ''db2''"
  by (simp add: ast_use2_def tree_defs spec_use_call_before_def)

lemma inj_use2:
  "handleTriggerCharacter ''use('db')\<newline>use('db2')\<newline>'' \<lparr>line = 2, character = 0\<rparr>
     = Inr ''use('db')\<newline>use('db2')\<newline>TRIGGER_CHARACTER''"
  by (simp add: handleTriggerCharacter_def newline_def PLACEHOLDER_def)

theorem databaseName_last_use_call_witness:
  "\<exists>c. fst (parseASTForCompletion parse_use2 ''use('db')\<newline>use('db2')\<newline>''
          \<lparr>line = 2, character = 0\<rparr> new_Visitor) = Inr (Completion c) \<and>
       databaseName c = Some ''db2''"
proof -
  have parsed: "parse_use2 ''use('db')\<newline>use('db2')\<newline>TRIGGER_CHARACTER'' = Some ast_use2"
    by (simp add: parse_use2_def)
  from databaseName_last_use_call [of _ _ _ parse_use2, OF inj_use2 parsed, of new_Visitor]
  show ?thesis
    by (simp only: filt_use2)
qed

theorem traversal_monotonic_witness:
  "\<exists>c1 c2. v_state (fold visitor_enter (take 4 (entered ast_use2)) (fresh_at (cursor_at 2 0)))
             = Completion c1 \<and>
           v_state (traverse (Some ast_use2) visitor_enter (fresh_at (cursor_at 2 0)))
             = Completion c2 \<and>
           state_le getDefaultsForCompletion c1 \<and> state_le c1 c2"
proof -
  have st: "v_state (fresh_at (cursor_at 2 0)) = Completion getDefaultsForCompletion"
    by (simp add: fresh_at_def)
  have sp: "entered ast_use2 = take 4 (entered ast_use2) @ drop 4 (entered ast_use2)"
    by simp
  from traversal_monotonic [OF st sp]
  show ?thesis .
qed

lemma inj_find:
  "handleTriggerCharacter ''db.coll.find({}).'' \<lparr>line = 0, character = 17\<rparr>
     = Inr ''db.coll.find({}).TRIGGER_CHARACTER''"
  by (simp add: handleTriggerCharacter_def newline_def PLACEHOLDER_def)

theorem cursor_call_sets_flag_witness:
  "\<exists>c. fst (parseASTForCompletion parse_find ''db.coll.find({}).''
          \<lparr>line = 0, character = 17\<rparr> new_Visitor) = Inr (Completion c) \<and>
       isFindCursor c"
proof -
  have parsed: "parse_find ''db.coll.find({}).TRIGGER_CHARACTER'' = Some ast_find"
    by (simp add: parse_find_def)
  have mem: "find_member \<in> set (entered ast_find)"
    by (simp add: ast_find_def file_of_def entered_def enter_order.simps [of "OtherNode _ _ _"]
          enter_order.simps [of "ExpressionStatement _ _"] enter_order.simps [of find_member])
  from cursor_call_sets_flag [of _ _ _ parse_find, OF inj_find parsed mem, of new_Visitor]
  show ?thesis
    by (simp add: find_member_def PLACEHOLDER_def)
qed

text \<open>
  C8. The result of \<open>parseASTForCompletion\<close> does not depend on the visitor object it
  is called on: a fresh visitor, any other visitor, and the visitor left behind by a
  first call on the same text and position all give the same result.
\<close>

theorem parseASTForCompletion_deterministic:
  "fst (parseASTForCompletion parse textFromEditor position this)
     = fst (parseASTForCompletion parse textFromEditor position this') \<and>
   fst (parseASTForCompletion parse textFromEditor position
          (snd (parseASTForCompletion parse textFromEditor position this)))
     = fst (parseASTForCompletion parse textFromEditor position this)"
proof -
  have overwrite: "\<And>(u::Visitor) a b.
      u\<lparr>v_state := a, v_selection := b\<rparr> = \<lparr>v_state = a, v_selection = b\<rparr>"
    by simp
  have indep: "\<And>u v. fst (parseASTForCompletion parse textFromEditor position u)
                 = fst (parseASTForCompletion parse textFromEditor position v)"
    by (simp add: parseASTForCompletion_def parseAST_def Let_def overwrite split: sum.splits)
  show ?thesis
    using indep by blast
qed

text \<open>
  C9. \<open>_isWithinSelection\<close> is false for every node whose location starts at column 0
  or ends at column 0, whatever the selection.
\<close>

theorem isWithinSelection_column_zero:
  assumes "loc node = Some l"
    and "column (loc_start l) = 0 \<or> column (loc_end l) = 0"
  shows "\<not> isWithinSelection node this"
  using assms by (auto simp: isWithinSelection_def)


theorem isWithinSelection_column_zero_witness:
  "\<not> isWithinSelection first_identifier (fresh_at sel05)"
proof -
  have l: "loc first_identifier
             = Some \<lparr>loc_start = \<lparr>loc_line = 1, column = 0\<rparr>, loc_end = \<lparr>loc_line = 1, column = 2\<rparr>\<rparr>"
    by (simp add: first_identifier_def mkloc_def)
  from isWithinSelection_column_zero [OF l]
  show ?thesis by simp
qed

lemma isWithinSelection_column_one:
  "isWithinSelection (Identifier (mkloc 1 1 1 2) ''b'') (fresh_at sel05)"
  by (simp add: isWithinSelection_def mkloc_def fresh_at_def sel05_def)

subsection \<open>Member accesses off the bare identifiers, and the two examples that differ\<close>

text \<open>
  C10. Entering a member expression whose object is the bare identifier \<open>sp\<close> and
  whose property (an identifier or a string literal) contains the marker sets
  \<open>isSpSymbol\<close> and \<open>isStreamProcessorName\<close> and changes no other field, so
  \<open>isStreamProcessorSymbol\<close> stays as it was; with the bare identifier \<open>db\<close> as
  object the step sets \<open>isCollectionName\<close> and nothing else.
\<close>

theorem bare_sp_member:
  assumes "is_MemberExpression node"
    and "is_Identifier (object node)"
    and "(is_Identifier (property node) \<and> str_includes (name (property node)) PLACEHOLDER) \<or>
         (is_StringLiteral (property node) \<and> str_includes (svalue (property node)) PLACEHOLDER)"
    and "v_state this = Completion c"
  shows "(name (object node) = ''sp'' \<longrightarrow>
            v_state (visitor_enter node this)
              = Completion (c\<lparr>isSpSymbol := True, isStreamProcessorName := True\<rparr>)) \<and>
         (name (object node) = ''db'' \<longrightarrow>
            v_state (visitor_enter node this) = Completion (c\<lparr>isCollectionName := True\<rparr>))"
proof -
  from assms(1) obtain l ob p cp where node: "node = MemberExpression l ob p cp"
    by (cases node) auto
  from assms(2) node obtain l' nm where ob: "ob = Identifier l' nm"
    by (cases ob) auto
  show ?thesis
    using assms(3,4) unfolding node ob
    by (auto simp: check_defs)
qed

theorem bare_sp_member_witness:
  "v_state (visitor_enter sp_member (fresh_at (cursor_at 0 3)))
     = Completion (getDefaultsForCompletion\<lparr>isSpSymbol := True, isStreamProcessorName := True\<rparr>) \<and>
   v_state (visitor_enter db_member (fresh_at (cursor_at 0 3)))
     = Completion (getDefaultsForCompletion\<lparr>isCollectionName := True\<rparr>)"
proof -
  have st: "v_state (fresh_at (cursor_at 0 3)) = Completion getDefaultsForCompletion"
    by (simp add: fresh_at_def)
  have sp: "is_MemberExpression sp_member" "is_Identifier (object sp_member)"
    "(is_Identifier (property sp_member) \<and> str_includes (name (property sp_member)) PLACEHOLDER) \<or>
     (is_StringLiteral (property sp_member) \<and> str_includes (svalue (property sp_member)) PLACEHOLDER)"
    "name (object sp_member) = ''sp''"
    by (simp_all add: sp_member_def PLACEHOLDER_def)
  have db: "is_MemberExpression db_member" "is_Identifier (object db_member)"
    "(is_Identifier (property db_member) \<and> str_includes (name (property db_member)) PLACEHOLDER) \<or>
     (is_StringLiteral (property db_member) \<and> str_includes (svalue (property db_member)) PLACEHOLDER)"
    "name (object db_member) = ''db''"
    by (simp_all add: db_member_def PLACEHOLDER_def)
  from bare_sp_member [OF sp(1,2,3) st] bare_sp_member [OF db(1,2,3) st] sp(4) db(4)
  show ?thesis by simp
qed

lemma trav_match:
  "v_state (traverse (Some ast_match) visitor_enter (fresh_at (cursor_at 0 31)))
   = Completion (getDefaultsForCompletion
         \<lparr>collectionName := Some ''coll'', isObjectKey := True, isIdentifierObjectValue := True,
          stageOperator := Some ''$match''\<rparr>)"
  by (simp add: ast_match_def tree_defs check_defs fresh_at_def cursor_at_def)


lemma run_parsed:
  assumes "handleTriggerCharacter textFromEditor position = Inr injected"
    and "parse injected = Some root"
  shows "fst (parseASTForCompletion parse textFromEditor position this)
           = Inr (v_state (traverse (Some root) visitor_enter
                    (fresh_at \<lparr>sel_start = position, sel_end = \<lparr>line = 0, character = 0\<rparr>\<rparr>)))"
proof -
  have overwrite:
    "\<And>a b. this\<lparr>v_state := a, v_selection := b\<rparr> = \<lparr>v_state = a, v_selection = b\<rparr>"
    by simp
  show ?thesis
    using assms
    by (simp add: parseASTForCompletion_def parseAST_def Let_def fresh_at_def overwrite)
qed

lemma trav_db_member:
  assumes "str_includes p PLACEHOLDER"
  shows "v_state (traverse
           (Some (OtherNode t0 l0 [OtherNode t1 l1
              [ExpressionStatement l2
                 (MemberExpression l3 (Identifier l4 ''db'') (Identifier l5 p) False)]]))
           visitor_enter (fresh_at selection))
         = Completion (getDefaultsForCompletion\<lparr>isDbSymbol := True, isCollectionName := True\<rparr>)"
  using assms by (simp add: tree_defs check_defs fresh_at_def)

text \<open>
  C2, as amended. For a text that the parser reads as the single statement
  \<open>db.p\<close>, with \<open>p\<close> an identifier that contains the marker,
  \<open>parseASTForCompletion\<close> returns the all-defaults state with \<open>isDbSymbol\<close> and
  \<open>isCollectionName\<close> set to true and nothing else changed: \<open>isCollectionName\<close> is true
  and \<open>isCollectionSymbol\<close> is false.
\<close>

theorem db_dot_completion:
  assumes "handleTriggerCharacter textFromEditor position = Inr injected"
    and "parse injected =
           Some (OtherNode ''File'' l0 [OtherNode ''Program'' l1
             [ExpressionStatement l2
                (MemberExpression l3 (Identifier l4 ''db'') (Identifier l5 p) False)]])"
    and "str_includes p PLACEHOLDER"
  shows "fst (parseASTForCompletion parse textFromEditor position this)
           = Inr (Completion
               (getDefaultsForCompletion\<lparr>isDbSymbol := True, isCollectionName := True\<rparr>))"
  by (simp add: run_parsed [of _ _ _ parse, OF assms(1,2)] trav_db_member [OF assms(3)])

theorem db_dot_completion_witness:
  "fst (parseASTForCompletion parse_db_dot ''db.'' \<lparr>line = 0, character = 3\<rparr> new_Visitor)
     = Inr (Completion
         (getDefaultsForCompletion\<lparr>isDbSymbol := True, isCollectionName := True\<rparr>))"
proof -
  have parsed: "parse_db_dot ''db.TRIGGER_CHARACTER'' =
      Some (OtherNode ''File'' (mkloc 1 0 1 20) [OtherNode ''Program'' (mkloc 1 0 1 20)
        [ExpressionStatement (mkloc 1 0 1 20)
           (MemberExpression (mkloc 1 0 1 20) (Identifier (mkloc 1 0 1 2) ''db'')
              (Identifier (mkloc 1 3 1 20) ''TRIGGER_CHARACTER'') False)]])"
    by (simp add: parse_db_dot_def ast_db_dot_def file_of_def)
  have marker: "str_includes ''TRIGGER_CHARACTER'' PLACEHOLDER"
    by (simp add: PLACEHOLDER_def)
  from db_dot_completion [of _ _ _ parse_db_dot, OF inj_db_dot parsed marker]
  show ?thesis .
qed

text \<open>
  C2 as stated fails on the input \<^verbatim>\<open>db.\<close> with the cursor after the dot: the state
  returned has \<open>isCollectionSymbol\<close> false.
\<close>

theorem db_dot_not_collection_symbol:
  "fst (parseASTForCompletion parse_db_dot ''db.'' \<lparr>line = 0, character = 3\<rparr> new_Visitor)
     = Inr (Completion
         (getDefaultsForCompletion\<lparr>isDbSymbol := True, isCollectionName := True\<rparr>)) \<and>
   \<not> isCollectionSymbol
       (getDefaultsForCompletion\<lparr>isDbSymbol := True, isCollectionName := True\<rparr>)"
proof -
  have parsed: "parse_db_dot ''db.TRIGGER_CHARACTER'' = Some ast_db_dot"
    by (simp add: parse_db_dot_def)
  have "v_state (traverse (Some ast_db_dot) visitor_enter
          (fresh_at \<lparr>sel_start = \<lparr>line = 0, character = 3\<rparr>,
                     sel_end = \<lparr>line = 0, character = 0\<rparr>\<rparr>))
        = Completion (getDefaultsForCompletion\<lparr>isDbSymbol := True, isCollectionName := True\<rparr>)"
    by (simp add: ast_db_dot_def tree_defs check_defs fresh_at_def)
  then show ?thesis
    by (simp add: run_parsed [of _ _ _ parse_db_dot, OF inj_db_dot parsed]
          getDefaultsForCompletion_def)
qed

lemma inj_match:
  "handleTriggerCharacter ''db.coll.aggregate([{ $match: {  } }])'' \<lparr>line = 0, character = 31\<rparr>
     = Inr ''db.coll.aggregate([{ $match: { TRIGGER_CHARACTER } }])''"
  by (simp add: handleTriggerCharacter_def newline_def PLACEHOLDER_def)

text \<open>
  C3, as amended. For \<^verbatim>\<open>db.coll.aggregate([{ $match: { <CURSOR> } }])\<close> the state
  returned is the all-defaults state with \<open>stageOperator\<close> \<open>$match\<close>, \<open>isObjectKey\<close> true,
  \<open>isIdentifierObjectValue\<close> true (the marker is parsed as a shorthand property) and
  \<open>collectionName\<close> \<open>coll\<close>, and nothing else changed: \<open>isStage\<close> is false.
\<close>

theorem match_stage_completion:
  assumes "parse ''db.coll.aggregate([{ $match: { TRIGGER_CHARACTER } }])'' = Some ast_match"
  shows "fst (parseASTForCompletion parse ''db.coll.aggregate([{ $match: {  } }])''
                \<lparr>line = 0, character = 31\<rparr> this)
           = Inr (Completion (getDefaultsForCompletion
               \<lparr>collectionName := Some ''coll'', isObjectKey := True,
                isIdentifierObjectValue := True, stageOperator := Some ''$match''\<rparr>))"
  using trav_match
  by (simp add: run_parsed [of _ _ _ parse, OF inj_match assms] cursor_at_def)

theorem match_stage_completion_witness:
  "fst (parseASTForCompletion parse_match ''db.coll.aggregate([{ $match: {  } }])''
          \<lparr>line = 0, character = 31\<rparr> new_Visitor)
     = Inr (Completion (getDefaultsForCompletion
         \<lparr>collectionName := Some ''coll'', isObjectKey := True,
          isIdentifierObjectValue := True, stageOperator := Some ''$match''\<rparr>))"
proof -
  have "parse_match ''db.coll.aggregate([{ $match: { TRIGGER_CHARACTER } }])'' = Some ast_match"
    by (simp add: parse_match_def)
  from match_stage_completion [of parse_match, OF this]
  show ?thesis .
qed

text \<open>
  C3 as stated fails on its own input: the state returned has \<open>isStage\<close> false.
\<close>

theorem match_stage_not_isStage:
  "fst (parseASTForCompletion parse_match ''db.coll.aggregate([{ $match: {  } }])''
          \<lparr>line = 0, character = 31\<rparr> new_Visitor)
     = Inr (Completion (getDefaultsForCompletion
         \<lparr>collectionName := Some ''coll'', isObjectKey := True,
          isIdentifierObjectValue := True, stageOperator := Some ''$match''\<rparr>)) \<and>
   \<not> isStage (getDefaultsForCompletion
         \<lparr>collectionName := Some ''coll'', isObjectKey := True,
          isIdentifierObjectValue := True, stageOperator := Some ''$match''\<rparr>)"
proof -
  have parsed: "parse_match ''db.coll.aggregate([{ $match: { TRIGGER_CHARACTER } }])''
                  = Some ast_match"
    by (simp add: parse_match_def)
  show ?thesis
    using trav_match
    by (simp add: run_parsed [of _ _ _ parse_match, OF inj_match parsed] cursor_at_def
          getDefaultsForCompletion_def)
qed

subsection \<open>A cursor beyond the last line\<close>

lemma handleTriggerCharacter_beyond:
  assumes "length (split_lines textFromEditor) \<le> line position"
  shows "handleTriggerCharacter textFromEditor position =
           (if character position = 0
            then Inr (join_lines (split_lines textFromEditor
                        @ replicate (line position - length (split_lines textFromEditor)) []
                        @ [PLACEHOLDER @ ''undefined'']))
            else Inl TypeError)"
  using assms by (simp add: handleTriggerCharacter_def Let_def)

end
